theory Spec2Isabelle
  imports Complex_Main "HOL-Library.AList" "HOL-Library.Log_Nat" "HOL-Library.Sublist"
begin

section \<open>Heuristic outline extraction of DocOutlinerr (src/unnamed/part\_000)\<close>

text \<open>
  The TypeScript functions \<open>getLinesFromPage\<close>, \<open>getFontStatistics\<close>,
  \<open>classifyHeadings\<close>, \<open>extractOutlineFromPdf\<close> and \<open>handleExtract\<close> are
  embedded as HOL functions.

  Conventions of the embedding:
  \<^item> a JavaScript \<open>number\<close> is a \<open>real\<close>: the finite values (\<open>NaN\<close> and the
    infinities are not values of the model; the one place where the code produces
    \<open>-Infinity\<close>, \<open>Math.max()\<close> of no arguments, has its own datatype). The
    operations of the code that are exact on binary64 numbers are exact here:
    \<open>Math.round\<close> (the nearest integer, ties towards \<open>+\<infinity>\<close>), \<open>Math.max\<close>, the
    comparisons, the sums of text lengths, and the sign of a difference in a sort
    comparator. The one difference whose value is compared with a constant,
    \<open>line.height - maxFontSize\<close>, is rounded to binary64 (\<open>binary64\<close> below);
  \<^item> a JavaScript string is a \<open>string\<close>, one \<open>char\<close> per code unit, for the code
    units 0 to 255; \<open>length\<close> is \<open>.length\<close>;
  \<^item> \<open>Array.prototype.sort\<close> with a comparator \<open>(a, b) => key(a) - key(b)\<close> is the
    stable sort \<open>sort_key key\<close> (ECMAScript 2019 made the sort stable);
  \<^item> an object used as a dictionary with numeric keys is an association list in
    insertion order, and its enumeration (\<open>for ... in\<close>, \<open>Object.entries\<close>) follows
    the property order of ECMAScript: array indices ascending, then the other keys in
    insertion order;
  \<^item> a \<open>throw\<close> is the left injection of a sum type.
\<close>

subsection \<open>Numbers and strings\<close>

definition Math_round :: "real \<Rightarrow> int" where
  "Math_round v = \<lfloor>v + 1 / 2\<rfloor>"

text \<open>
  Rounding a real to binary64, as the arithmetic of JavaScript does after every
  operation: the nearest number with a significand of 53 bits, ties to the even
  significand; the exponent is at least \<open>-1022\<close> (below it the numbers are
  subnormal, with the spacing \<open>2\<^sup>-\<^sup>1\<^sup>0\<^sup>7\<^sup>4\<close>), and a result of magnitude
  \<open>2\<^sup>1\<^sup>0\<^sup>2\<^sup>4\<close> or more is an infinity, here \<open>None\<close>. \<open>exponent_of x\<close> is
  \<open>\<lfloor>log\<^sub>2 \<bar>x\<bar>\<rfloor>\<close> for \<open>x \<noteq> 0\<close>.
\<close>

definition exponent_of :: "real \<Rightarrow> int" where
  "exponent_of x =
     (if 1 \<le> \<bar>x\<bar> then bitlen \<lfloor>\<bar>x\<bar>\<rfloor> - 1 else - bitlen (\<lceil>1 / \<bar>x\<bar>\<rceil> - 1))"

definition round_half_even :: "real \<Rightarrow> int" where
  "round_half_even r =
     (let f = \<lfloor>r\<rfloor>; t = r - real_of_int f
      in if t < 1 / 2 then f else if 1 / 2 < t then f + 1 else if even f then f else f + 1)"

definition binary64 :: "real \<Rightarrow> real option" where
  "binary64 x =
     (if x = 0 then Some 0
      else (let e = max (exponent_of x) (- 1022);
                q = 2 powi (e - 52);
                r = real_of_int (round_half_even (\<bar>x\<bar> / q)) * q
            in if 2 powi 1024 \<le> r then None else Some (sgn x * r)))"

text \<open>The white space of \<open>\s\<close> and of \<open>trim()\<close> among the code units 0 to 255:
  tab, line feed, vertical tab, form feed, carriage return, space, no-break space.\<close>

definition is_space :: "char \<Rightarrow> bool" where
  "is_space c \<longleftrightarrow> (of_char c :: nat) \<in> {9, 10, 11, 12, 13, 32, 160}"

definition is_digit :: "char \<Rightarrow> bool" where
  "is_digit c \<longleftrightarrow> 48 \<le> (of_char c :: nat) \<and> (of_char c :: nat) \<le> 57"

text \<open>\<open>String.prototype.toLowerCase\<close> on the code units 0 to 255: A..Z and the
  capital letters of Latin-1 (0xC0..0xDE without the multiplication sign 0xD7) move
  up by 32.\<close>

definition lower_char :: "char \<Rightarrow> char" where
  "lower_char c =
     (let n = (of_char c :: nat) in
      if (65 \<le> n \<and> n \<le> 90) \<or> (192 \<le> n \<and> n \<le> 222 \<and> n \<noteq> 215)
      then char_of (n + 32) else c)"

definition toLowerCase :: "string \<Rightarrow> string" where
  "toLowerCase s = map lower_char s"

text \<open>\<open>/^\d+$/.test(s)\<close>: one or more characters, all of them decimal digits.\<close>

definition isNumeric :: "string \<Rightarrow> bool" where
  "isNumeric s \<longleftrightarrow> s \<noteq> [] \<and> list_all is_digit s"

text \<open>\<open>s.trim()\<close>.\<close>

definition trim :: "string \<Rightarrow> string" where
  "trim s = rev (dropWhile is_space (rev (dropWhile is_space s)))"

text \<open>\<open>s.replace(/\s+/g, ' ')\<close>: every maximal run of white space becomes one space.\<close>

function collapse_ws :: "string \<Rightarrow> string" where
  "collapse_ws [] = []"
| "collapse_ws (c # cs) =
     (if is_space c then CHR '' '' # collapse_ws (dropWhile is_space cs)
      else c # collapse_ws cs)"
  by pat_completeness auto
termination
  by (relation "measure length") (auto simp: le_imp_less_Suc length_dropWhile_le)

text \<open>\<open>parts.join(' ')\<close>.\<close>

fun join_space :: "string list \<Rightarrow> string" where
  "join_space [] = []"
| "join_space [s] = s"
| "join_space (s # t # ss) = s @ CHR '' '' # join_space (t # ss)"

text \<open>\<open>xs.indexOf(v)\<close>: the first position of \<open>v\<close>, or \<open>-1\<close>.\<close>

fun indexOf :: "'a list \<Rightarrow> 'a \<Rightarrow> int" where
  "indexOf [] v = - 1"
| "indexOf (x # xs) v =
     (if x = v then 0 else (let i = indexOf xs v in if i = - 1 then - 1 else i + 1))"

text \<open>\<open>xs.findIndex(P)\<close>: the first position whose element satisfies \<open>P\<close>, or \<open>-1\<close>.\<close>

fun findIndex :: "('a \<Rightarrow> bool) \<Rightarrow> 'a list \<Rightarrow> int" where
  "findIndex P [] = - 1"
| "findIndex P (x # xs) =
     (if P x then 0 else (let i = findIndex P xs in if i = - 1 then - 1 else i + 1))"

subsection \<open>Data model\<close>

text \<open>The \<open>transform\<close> of a pdf.js text item is a matrix of six numbers; the code
  reads entries 4 (horizontal origin) and 5 (vertical origin).\<close>

datatype matrix = Matrix real real real real real real

fun transform4 :: "matrix \<Rightarrow> real" where
  "transform4 (Matrix a b c d e f) = e"

fun transform5 :: "matrix \<Rightarrow> real" where
  "transform5 (Matrix a b c d e f) = f"

record TextItem =
  str :: string
  transform :: matrix
  height :: real
  fontName :: string

record Line =
  line_text :: string
  line_x :: real
  line_y :: real
  line_height :: real
  line_fontName :: string
  page :: nat

datatype level = H1 | H2 | H3 | H4 | H5 | H6

record Heading =
  heading_text :: string
  level :: level
  heading_page :: nat

record Outline =
  title :: string
  outline :: "Heading list"

datatype error = TypeError | EmptyExtraction | NoStructureFound | NoFileSelected

subsection \<open>Heading Classifier: \<open>classifyHeadings\<close>\<close>

text \<open>The template \<open>`H${index + 1}`\<close>, reached for \<open>0 \<le> index < 6\<close> only.\<close>

definition level_of_index :: "int \<Rightarrow> level" where
  "level_of_index index =
     (if index = 0 then H1 else if index = 1 then H2 else if index = 2 then H3
      else if index = 3 then H4 else if index = 4 then H5 else H6)"

definition getHeadingLevel :: "real list \<Rightarrow> real \<Rightarrow> level option" where
  "getHeadingLevel headingSizes h =
     (let roundedHeight = Math_round h;
          index = indexOf headingSizes (real_of_int roundedHeight)
      in if index = - 1 then None
         else if index < 6 then Some (level_of_index index)
         else Some H6)"

text \<open>The body of \<open>lines.forEach\<close>: the heading pushed for one line, if any.\<close>

definition classifyLine :: "string \<Rightarrow> real list \<Rightarrow> Line \<Rightarrow> Heading option" where
  "classifyLine titleText headingSizes line =
     (let lv = getHeadingLevel headingSizes (line_height line);
          isNum = isNumeric (line_text line);
          isTitle = (toLowerCase (line_text line) = toLowerCase titleText)
      in case lv of
           None \<Rightarrow> None
         | Some l \<Rightarrow>
             if length (line_text line) > 3 \<and> \<not> isNum \<and> \<not> isTitle
             then Some \<lparr>heading_text = line_text line, level = l, heading_page = page line\<rparr>
             else None)"

text \<open>The loop over the lines, pushing onto \<open>outline\<close>.\<close>

fun push_headings :: "string \<Rightarrow> real list \<Rightarrow> Heading list \<Rightarrow> Line list \<Rightarrow> Heading list" where
  "push_headings titleText headingSizes acc [] = acc"
| "push_headings titleText headingSizes acc (line # lines) =
     push_headings titleText headingSizes
       (case classifyLine titleText headingSizes line of
          None \<Rightarrow> acc | Some h \<Rightarrow> acc @ [h]) lines"

definition same_entry :: "Heading \<Rightarrow> Heading \<Rightarrow> bool" where
  "same_entry heading h \<longleftrightarrow>
     heading_text h = heading_text heading \<and> heading_page h = heading_page heading"

text \<open>\<open>outline.filter((heading, index, self) => index === self.findIndex(...))\<close>.\<close>

definition uniqueOutline :: "Heading list \<Rightarrow> Heading list" where
  "uniqueOutline ol =
     map snd (filter (\<lambda>(index, heading). int index = findIndex (same_entry heading) ol)
                (enumerate 0 ol))"

definition classifyHeadings :: "Line list \<Rightarrow> string \<Rightarrow> real list \<Rightarrow> Heading list" where
  "classifyHeadings lines titleText headingSizes =
     uniqueOutline (push_headings titleText headingSizes [] lines)"

subsection \<open>Objects used as dictionaries\<close>

text \<open>
  \<open>itemGroups\<close> and \<open>fontStats\<close> are plain objects indexed by a rounded number. The
  association list keeps the properties in the order of their creation:
  \<open>AList.update\<close> overwrites the value of a present key in place and appends an
  absent one. \<open>obj_entries\<close> is the order of \<open>for ... in\<close> and \<open>Object.entries\<close>:
  the keys that are array indices (\<open>0 \<le> k < 2\<^sup>3\<^sup>2 - 1\<close>) in ascending order, then
  the others in creation order.
\<close>

definition is_array_index :: "int \<Rightarrow> bool" where
  "is_array_index k \<longleftrightarrow> 0 \<le> k \<and> k < 4294967295"

definition obj_entries :: "(int \<times> 'v) list \<Rightarrow> (int \<times> 'v) list" where
  "obj_entries obj =
     sort_key fst (filter (\<lambda>(k, v). is_array_index k) obj) @
     filter (\<lambda>(k, v). \<not> is_array_index k) obj"

subsection \<open>Line Assembler: \<open>getLinesFromPage\<close>\<close>

text \<open>The body of \<open>items.forEach\<close>.\<close>

definition push_item :: "(int \<times> TextItem list) list \<Rightarrow> TextItem \<Rightarrow> (int \<times> TextItem list) list" where
  "push_item itemGroups item =
     (let y = Math_round (transform5 (transform item))
      in case map_of itemGroups y of
           None \<Rightarrow> AList.update y [item] itemGroups
         | Some g \<Rightarrow> AList.update y (g @ [item]) itemGroups)"

definition group_items :: "TextItem list \<Rightarrow> (int \<times> TextItem list) list" where
  "group_items items = foldl push_item [] items"

text \<open>The body of the \<open>for ... in\<close> loop. Reading \<open>group[0].transform\<close> of an empty
  group would throw a \<open>TypeError\<close>.\<close>

definition line_of_group :: "nat \<Rightarrow> int \<times> TextItem list \<Rightarrow> error + Line" where
  "line_of_group pageNumber entry =
     (case entry of (y, items) \<Rightarrow>
        (let grp = sort_key (\<lambda>item. transform4 (transform item)) items;
             txt = join_space (map str grp)
         in case grp of
              [] \<Rightarrow> Inl TypeError
            | firstItem # _ \<Rightarrow>
                Inr \<lparr>line_text = collapse_ws (trim txt),
                     line_x = transform4 (transform firstItem),
                     line_y = real_of_int y,
                     line_height = height firstItem,
                     line_fontName = fontName firstItem,
                     page = pageNumber\<rparr>))"

fun push_lines :: "nat \<Rightarrow> Line list \<Rightarrow> (int \<times> TextItem list) list \<Rightarrow> error + Line list" where
  "push_lines pageNumber lines [] = Inr lines"
| "push_lines pageNumber lines (entry # entries) =
     (case line_of_group pageNumber entry of
        Inl e \<Rightarrow> Inl e
      | Inr l \<Rightarrow> push_lines pageNumber (lines @ [l]) entries)"

text \<open>A page is its number and its text items.\<close>

definition getLinesFromPage :: "nat \<Rightarrow> TextItem list \<Rightarrow> error + Line list" where
  "getLinesFromPage pageNumber items =
     (if items = [] then Inr []
      else case push_lines pageNumber [] (obj_entries (group_items items)) of
             Inl e \<Rightarrow> Inl e
           | Inr lines \<Rightarrow> Inr (sort_key (\<lambda>l. - line_y l) lines))"

subsection \<open>Font Profiler: \<open>getFontStatistics\<close>\<close>

text \<open>The body of \<open>lines.forEach\<close>. The test \<open>line.height && ...\<close> is false for
  the height 0.\<close>

definition add_font_stat :: "(int \<times> nat) list \<Rightarrow> Line \<Rightarrow> (int \<times> nat) list" where
  "add_font_stat fontStats line =
     (if line_height line \<noteq> 0 \<and> length (line_text line) > 2
      then (let h = Math_round (line_height line)
            in AList.update h
                 ((case map_of fontStats h of None \<Rightarrow> 0 | Some c \<Rightarrow> c)
                    + length (line_text line)) fontStats)
      else fontStats)"

definition fontStats_of :: "Line list \<Rightarrow> (int \<times> nat) list" where
  "fontStats_of lines = foldl add_font_stat [] lines"

definition sortedFonts_of :: "(int \<times> nat) list \<Rightarrow> real list" where
  "sortedFonts_of fontStats =
     map (\<lambda>(size, count). real_of_int size)
       (sort_key (\<lambda>(size, count). - int count) (obj_entries fontStats))"

record FontStatistics =
  headingSizes :: "real list"
  bodySize :: real

text \<open>\<open>sortedFonts[0] || 12\<close> is 12 when the list is empty and when its first
  entry is 0.\<close>

definition getFontStatistics :: "Line list \<Rightarrow> FontStatistics" where
  "getFontStatistics lines =
     (let sortedFonts = sortedFonts_of (fontStats_of lines);
          body = (case sortedFonts of [] \<Rightarrow> 12 | s # _ \<Rightarrow> if s = 0 then 12 else s);
          headings = sort_key (\<lambda>s. - s) (filter (\<lambda>size. size > body) sortedFonts)
      in \<lparr>headingSizes = headings, bodySize = body\<rparr>)"

subsection \<open>Title and outline: \<open>extractOutlineFromPdf\<close>, \<open>handleExtract\<close>\<close>

text \<open>\<open>Math.max(...values)\<close>; of no arguments it is \<open>-Infinity\<close>.\<close>

datatype maximum = NegInfinity | Finite real

fun Math_max :: "real list \<Rightarrow> maximum" where
  "Math_max [] = NegInfinity"
| "Math_max (v # vs) =
     (case Math_max vs of NegInfinity \<Rightarrow> Finite v | Finite m \<Rightarrow> Finite (max v m))"

text \<open>\<open>Math.abs(h - maxFontSize) < 1\<close>: the difference is a binary64 number, or an
  infinity when it overflows; the distance to \<open>-Infinity\<close> is \<open>Infinity\<close>, and
  \<open>Infinity < 1\<close> is false.\<close>

definition within_one :: "real \<Rightarrow> maximum \<Rightarrow> bool" where
  "within_one h m =
     (case m of
        NegInfinity \<Rightarrow> False
      | Finite v \<Rightarrow> (case binary64 (h - v) of None \<Rightarrow> False | Some d \<Rightarrow> \<bar>d\<bar> < 1))"

text \<open>The block "Attempt to extract title" of \<open>extractOutlineFromPdf\<close>.\<close>

definition extractTitle :: "Line list \<Rightarrow> string" where
  "extractTitle allLines =
     (let firstPageLines = sort_key (\<lambda>l. - line_y l) (filter (\<lambda>l. page l \<le> 2) allLines);
          maxFontSize = Math_max (map line_height firstPageLines);
          titleLines =
            map line_text
              (sort_key (\<lambda>l. - line_y l)
                 (filter (\<lambda>line. within_one (line_height line) maxFontSize) firstPageLines))
      in join_space titleLines)"

text \<open>The loop over the pages \<open>i = 1 .. numPages\<close>; a document is the list of the
  text items of its pages.\<close>

fun collect_lines :: "nat \<Rightarrow> Line list \<Rightarrow> TextItem list list \<Rightarrow> error + Line list" where
  "collect_lines i allLines [] = Inr allLines"
| "collect_lines i allLines (items # rest) =
     (case getLinesFromPage i items of
        Inl e \<Rightarrow> Inl e
      | Inr pageLines \<Rightarrow> collect_lines (Suc i) (allLines @ pageLines) rest)"

text \<open>The two \<open>throw new Error(...)\<close> of the code carry messages only; they are
  named here \<open>EmptyExtraction\<close> ("Could not extract any text from this document ...")
  and \<open>NoStructureFound\<close> ("Could not extract a title or any headings ...").\<close>

definition extractOutlineFromPdf :: "TextItem list list \<Rightarrow> error + Outline" where
  "extractOutlineFromPdf pages =
     (case collect_lines 1 [] pages of
        Inl e \<Rightarrow> Inl e
      | Inr allLines \<Rightarrow>
          if length allLines = 0 then Inl EmptyExtraction
          else (let t = extractTitle allLines;
                    hs = headingSizes (getFontStatistics allLines);
                    ol = classifyHeadings allLines t hs
                in Inr \<lparr>title = t, outline = ol\<rparr>))"

text \<open>\<open>handleExtract\<close>: what is reported to the user, the error or the outline. The
  selected file is \<open>None\<close> when no file was chosen.\<close>

definition handleExtract :: "TextItem list list option \<Rightarrow> error + Outline" where
  "handleExtract file =
     (case file of
        None \<Rightarrow> Inl NoFileSelected
      | Some pages \<Rightarrow>
          (case extractOutlineFromPdf pages of
             Inl e \<Rightarrow> Inl e
           | Inr result \<Rightarrow>
               if title result = [] \<and> length (outline result) = 0 then Inl NoStructureFound
               else Inr result))"

subsection \<open>Notions of the specification\<close>

text \<open>The rank of a size in \<open>headingSizes\<close>: the number of entries before its first
  occurrence.\<close>

definition first_index :: "'a list \<Rightarrow> 'a \<Rightarrow> nat" where
  "first_index xs v = length (takeWhile (\<lambda>s. s \<noteq> v) xs)"

text \<open>The level table of the specification: rank 0 is H1, ..., rank 4 is H5, every
  larger rank is H6.\<close>

fun rank_level :: "nat \<Rightarrow> level" where
  "rank_level 0 = H1"
| "rank_level (Suc 0) = H2"
| "rank_level (Suc (Suc 0)) = H3"
| "rank_level (Suc (Suc (Suc 0))) = H4"
| "rank_level (Suc (Suc (Suc (Suc 0)))) = H5"
| "rank_level (Suc (Suc (Suc (Suc (Suc n))))) = H6"

text \<open>The pair that identifies an outline entry for the removal of duplicates.\<close>

definition entry_key :: "Heading \<Rightarrow> string \<times> nat" where
  "entry_key h = (heading_text h, heading_page h)"

text \<open>The removal of duplicates in the words of the specification: going through the
  candidates in order, a heading is dropped when its pair is that of a heading kept
  before it.\<close>

fun keep_first :: "(string \<times> nat) list \<Rightarrow> Heading list \<Rightarrow> Heading list" where
  "keep_first kept [] = []"
| "keep_first kept (h # hs) =
     (if entry_key h \<in> set kept then keep_first kept hs
      else h # keep_first (entry_key h # kept) hs)"

text \<open>Trimming at the right end only, an auxiliary notion for \<open>trim\<close>.\<close>

definition rtrim :: "string \<Rightarrow> string" where
  "rtrim s = rev (dropWhile is_space (rev s))"

text \<open>The quantized vertical origin of a text item, and the invariant of the loop
  that groups the items: the keys are distinct and the group of a key holds the items
  of that key, in their order of arrival.\<close>

definition item_key :: "TextItem \<Rightarrow> int" where
  "item_key item = Math_round (transform5 (transform item))"

definition grouped :: "(int \<times> TextItem list) list \<Rightarrow> TextItem list \<Rightarrow> bool" where
  "grouped g items \<longleftrightarrow>
     distinct (map fst g) \<and>
     (\<forall>k. map_of g k =
        (if k \<in> item_key ` set items then Some (filter (\<lambda>it. item_key it = k) items) else None))"


text \<open>The line of the specification for the quantized value \<open>k\<close>: the items of that
  value in ascending horizontal order, their texts joined by single spaces, white space
  collapsed and the result trimmed; \<open>x\<close>, \<open>height\<close> and \<open>fontName\<close> of the
  horizontally first item.\<close>

definition merged_line :: "nat \<Rightarrow> int \<Rightarrow> TextItem list \<Rightarrow> Line" where
  "merged_line p k items =
     (let grp = sort_key (\<lambda>item. transform4 (transform item))
                  (filter (\<lambda>item. item_key item = k) items)
      in \<lparr>line_text = trim (collapse_ws (join_space (map str grp))),
          line_x = transform4 (transform (hd grp)),
          line_y = real_of_int k,
          line_height = height (hd grp),
          line_fontName = fontName (hd grp),
          page = p\<rparr>)"

text \<open>Document order of the specification: page ascending, and within a page
  descending \<open>y\<close>.\<close>

definition before_in_document :: "Line \<Rightarrow> Line \<Rightarrow> bool" where
  "before_in_document a b \<longleftrightarrow> page a < page b \<or> (page a = page b \<and> line_y b < line_y a)"

text \<open>The notions of the Font Profiler in the words of the specification: the lines that
  count (the test \<open>line.height && line.text.length > 2\<close> of the code), the heights
  that have a bucket, and the length accumulated in the bucket of a height. The last
  definition is the invariant between \<open>fontStats\<close> and the lines seen so far.\<close>

definition counted :: "Line \<Rightarrow> bool" where
  "counted l \<longleftrightarrow> line_height l \<noteq> 0 \<and> 2 < length (line_text l)"

definition bucket_heights :: "Line list \<Rightarrow> int set" where
  "bucket_heights ls = (\<lambda>l. Math_round (line_height l)) ` set (filter counted ls)"

definition accumulated :: "Line list \<Rightarrow> int \<Rightarrow> nat" where
  "accumulated ls k =
     sum_list (map (\<lambda>l. length (line_text l))
       (filter (\<lambda>l. counted l \<and> Math_round (line_height l) = k) ls))"

definition profiled :: "(int \<times> nat) list \<Rightarrow> Line list \<Rightarrow> bool" where
  "profiled fs ls \<longleftrightarrow>
     distinct (map fst fs) \<and>
     (\<forall>k. map_of fs k = (if k \<in> bucket_heights ls then Some (accumulated ls k) else None))"

text \<open>The entries of \<open>fontStats\<close> ranked by accumulated length, as the code sorts them
  before it keeps the sizes only.\<close>

definition ranked :: "Line list \<Rightarrow> (int \<times> nat) list" where
  "ranked ls = sort_key (\<lambda>(size, count). - int count) (obj_entries (fontStats_of ls))"

section \<open>Properties\<close>

subsection \<open>Level by rank\<close>

lemma indexOf_first_index:
  "indexOf xs v = (if v \<in> set xs then int (first_index xs v) else - 1)"
  by (induction xs) (auto simp: first_index_def Let_def)

lemma first_index_less: "v \<in> set xs \<Longrightarrow> first_index xs v < length xs"
  by (induction xs) (auto simp: first_index_def)

lemma first_index_nth: "v \<in> set xs \<Longrightarrow> xs ! first_index xs v = v"
  by (induction xs) (auto simp: first_index_def)

lemma first_index_least: "j < first_index xs v \<Longrightarrow> xs ! j \<noteq> v"
proof (induction xs arbitrary: j)
  case Nil
  then show ?case
    by (simp add: first_index_def)
next
  case (Cons x xs)
  then show ?case
    by (cases j) (auto simp: first_index_def split: if_splits)
qed

lemma rank_level_ge5:
  assumes "5 \<le> k"
  shows "rank_level k = H6"
proof -
  from assms obtain n where "k = 5 + n"
    using le_iff_add by blast
  then have "k = Suc (Suc (Suc (Suc (Suc n))))"
    by simp
  then show ?thesis
    by simp
qed

lemma level_of_index_rank: "level_of_index (int k) = rank_level k"
proof (cases "5 \<le> k")
  case True
  then show ?thesis
    by (simp add: rank_level_ge5 level_of_index_def)
next
  case False
  then have "k = 0 \<or> k = 1 \<or> k = 2 \<or> k = 3 \<or> k = 4"
    by arith
  then show ?thesis
    by (auto simp: level_of_index_def numeral_eq_Suc)
qed

lemma getHeadingLevel_eq:
  "getHeadingLevel hs h =
     (if real_of_int (Math_round h) \<in> set hs
      then Some (rank_level (first_index hs (real_of_int (Math_round h)))) else None)"
  by (simp add: getHeadingLevel_def indexOf_first_index Let_def level_of_index_rank
      rank_level_ge5)

text \<open>
  Claim C2. The level of a line depends on the rank of its rounded height in
  \<open>headingSizes\<close> only, the rank being the position of the first occurrence: a
  rounded height that does not occur gives no level; otherwise rank 0 gives H1, rank 1
  H2, rank 2 H3, rank 3 H4, rank 4 H5 and every rank from 5 on gives H6. The type
  \<open>level\<close> has no value below H6.
\<close>

theorem getHeadingLevel_by_rank:
  "(real_of_int (Math_round h) \<notin> set sizes \<longrightarrow>
      getHeadingLevel sizes h = None) \<and>
   (real_of_int (Math_round h) \<in> set sizes \<longrightarrow>
      first_index sizes (real_of_int (Math_round h)) < length sizes \<and>
      sizes ! first_index sizes (real_of_int (Math_round h))
        = real_of_int (Math_round h) \<and>
      (\<forall>j < first_index sizes (real_of_int (Math_round h)).
          sizes ! j \<noteq> real_of_int (Math_round h)) \<and>
      getHeadingLevel sizes h =
        Some (rank_level (first_index sizes (real_of_int (Math_round h))))) \<and>
   rank_level 0 = H1 \<and> rank_level 1 = H2 \<and> rank_level 2 = H3 \<and> rank_level 3 = H4 \<and>
   rank_level 4 = H5 \<and> (\<forall>k \<ge> 5. rank_level k = H6)"
  by (simp add: getHeadingLevel_eq first_index_less first_index_nth first_index_least
      rank_level_ge5 numeral_eq_Suc)

theorem getHeadingLevel_by_rank_witness:
  "getHeadingLevel [24, 18, 16, 15, 14, 13, 11] 18.2 = Some H2 \<and>
   getHeadingLevel [24, 18, 16, 15, 14, 13, 11] 13 = Some H6 \<and>
   getHeadingLevel [24, 18, 16, 15, 14, 13, 11] 10.6 = Some H6 \<and>
   getHeadingLevel [24, 18, 16, 15, 14, 13, 11] 12 = None"
  using getHeadingLevel_by_rank [of "18.2" "[24, 18, 16, 15, 14, 13, 11]"]
    getHeadingLevel_by_rank [of 13 "[24, 18, 16, 15, 14, 13, 11]"]
    getHeadingLevel_by_rank [of "10.6" "[24, 18, 16, 15, 14, 13, 11]"]
    getHeadingLevel_by_rank [of 12 "[24, 18, 16, 15, 14, 13, 11]"]
  by (simp add: Math_round_def first_index_def)

subsection \<open>Candidate headings and the removal of duplicates\<close>

lemma push_headings_eq:
  "push_headings t sizes acc ls = acc @ List.map_filter (classifyLine t sizes) ls"
  by (induction ls arbitrary: acc) (auto split: option.splits)

lemma same_entry_key: "same_entry a b \<longleftrightarrow> entry_key b = entry_key a"
  by (auto simp: same_entry_def entry_key_def)

lemma findIndex_nonneg: "findIndex P xs \<noteq> - 1 \<Longrightarrow> 0 \<le> findIndex P xs"
  by (induction xs) (auto simp: Let_def split: if_splits)

lemma findIndex_ge: "- 1 \<le> findIndex P xs"
  by (induction xs) (auto simp: Let_def)

lemma findIndex_append_hit:
  "P x \<Longrightarrow> findIndex P (pre @ x # xs) = int (length pre) \<longleftrightarrow> (\<forall>y \<in> set pre. \<not> P y)"
proof (induction pre)
  case Nil
  then show ?case by simp
next
  case (Cons a pre)
  have "- 1 \<le> findIndex P (pre @ x # xs)" by (rule findIndex_ge)
  with Cons show ?case
    by (auto simp: Let_def)
qed

lemma unique_filter_aux:
  "set kept = entry_key ` set pre \<Longrightarrow>
   map snd (filter (\<lambda>(index, heading). int index = findIndex (same_entry heading) (pre @ xs @ post))
              (enumerate (length pre) xs)) = keep_first kept xs"
proof (induction xs arbitrary: pre kept)
  case Nil
  then show ?case by simp
next
  case (Cons h xs)
  have hit: "int (length pre) = findIndex (same_entry h) (pre @ h # xs @ post)
               \<longleftrightarrow> entry_key h \<notin> set kept"
  proof -
    have "same_entry h h"
      by (simp add: same_entry_def)
    then have "findIndex (same_entry h) (pre @ h # xs @ post) = int (length pre)
                 \<longleftrightarrow> (\<forall>y \<in> set pre. \<not> same_entry h y)"
      by (rule findIndex_append_hit)
    moreover have "(\<forall>y \<in> set pre. \<not> same_entry h y) \<longleftrightarrow> entry_key h \<notin> set kept"
      unfolding Cons.prems same_entry_key by (auto intro: rev_image_eqI)
    ultimately show ?thesis
      by auto
  qed
  have rest: "map snd (filter (\<lambda>(index, heading).
                  int index = findIndex (same_entry heading) ((pre @ [h]) @ xs @ post))
                (enumerate (length (pre @ [h])) xs)) = keep_first kept' xs"
    if "set kept' = entry_key ` set (pre @ [h])" for kept'
    using Cons.IH [OF that] .
  show ?case
  proof (cases "entry_key h \<in> set kept")
    case True
    then have "set kept = entry_key ` set (pre @ [h])"
      using Cons.prems by auto
    from rest [OF this] True hit show ?thesis
      by simp
  next
    case False
    have "set (entry_key h # kept) = entry_key ` set (pre @ [h])"
      using Cons.prems by auto
    from rest [OF this] False hit show ?thesis
      by simp
  qed
qed

lemma uniqueOutline_keep_first: "uniqueOutline ol = keep_first [] ol"
  using unique_filter_aux [of "[]" "[]" ol "[]"] by (simp add: uniqueOutline_def)

lemma keep_first_subseq: "subseq (keep_first kept hs) hs"
  by (induction hs arbitrary: kept) auto

lemma keep_first_keys:
  "set (map entry_key (keep_first kept hs)) = entry_key ` set hs - set kept"
  by (induction hs arbitrary: kept) auto

lemma keep_first_distinct: "distinct (map entry_key (keep_first kept hs))"
  by (induction hs arbitrary: kept) (auto simp: keep_first_keys simp del: set_map)

lemma keep_first_find:
  "h \<in> set (keep_first kept hs) \<Longrightarrow> find (\<lambda>c. entry_key c = entry_key h) hs = Some h"
proof (induction hs arbitrary: kept)
  case Nil
  then show ?case by simp
next
  case (Cons a hs)
  show ?case
  proof (cases "entry_key a = entry_key h")
    case True
    have "h \<notin> set (keep_first kept' hs)" if "entry_key a \<in> set kept'" for kept'
    proof
      assume "h \<in> set (keep_first kept' hs)"
      then have "entry_key h \<in> set (map entry_key (keep_first kept' hs))"
        by simp
      then show False
        using that True by (simp only: keep_first_keys) simp
    qed
    from this [of kept] this [of "entry_key a # kept"] Cons.prems True show ?thesis
      by (auto split: if_splits)
  next
    case False
    with Cons show ?thesis
      by (auto split: if_splits)
  qed
qed

subsection \<open>Exclusion rules\<close>

lemma classifyLine_eq:
  "classifyLine t sizes l =
     (if real_of_int (Math_round (line_height l)) \<in> set sizes \<and> 3 < length (line_text l) \<and>
         \<not> isNumeric (line_text l) \<and> toLowerCase (line_text l) \<noteq> toLowerCase t
      then Some \<lparr>heading_text = line_text l,
                 level = rank_level (first_index sizes (real_of_int (Math_round (line_height l)))),
                 heading_page = page l\<rparr>
      else None)"
  by (simp add: classifyLine_def getHeadingLevel_eq Let_def)

lemma keep_first_subset: "set (keep_first kept hs) \<subseteq> set hs"
  by (induction hs arbitrary: kept) auto

lemma classifyHeadings_subset:
  "h \<in> set (classifyHeadings ls t sizes) \<Longrightarrow> \<exists>l \<in> set ls. classifyLine t sizes l = Some h"
proof -
  assume "h \<in> set (classifyHeadings ls t sizes)"
  then have "h \<in> set (keep_first [] (List.map_filter (classifyLine t sizes) ls))"
    by (simp add: classifyHeadings_def uniqueOutline_keep_first push_headings_eq)
  then have "h \<in> set (List.map_filter (classifyLine t sizes) ls)"
    using keep_first_subset by blast
  then show ?thesis
    by (auto simp: List.map_filter_def)
qed

text \<open>
  Claim C3. A line whose rounded height occurs in \<open>headingSizes\<close> is rejected exactly
  when its text has at most 3 characters, or consists of decimal digits only, or equals
  the title up to case; otherwise the heading pushed has the text of the line, the level
  of its rank and the page of the line. A line with the text "7" and a line equal to the
  title up to case are rejected whatever their height, and no entry of the result of
  \<open>classifyHeadings\<close> has such a text: every entry was pushed for one of the lines.
\<close>

theorem classifyLine_rejects:
  "(real_of_int (Math_round (line_height l)) \<in> set sizes \<longrightarrow>
      (classifyLine t sizes l = None \<longleftrightarrow>
         length (line_text l) \<le> 3 \<or> isNumeric (line_text l) \<or>
         toLowerCase (line_text l) = toLowerCase t) \<and>
      (\<not> (length (line_text l) \<le> 3 \<or> isNumeric (line_text l) \<or>
            toLowerCase (line_text l) = toLowerCase t) \<longrightarrow>
         classifyLine t sizes l =
           Some \<lparr>heading_text = line_text l,
                 level = rank_level (first_index sizes (real_of_int (Math_round (line_height l)))),
                 heading_page = page l\<rparr>)) \<and>
   (line_text l = ''7'' \<longrightarrow> classifyLine t sizes l = None) \<and>
   (toLowerCase (line_text l) = toLowerCase t \<longrightarrow> classifyLine t sizes l = None) \<and>
   (\<forall>h \<in> set (classifyHeadings ls t sizes).
      (\<exists>l' \<in> set ls. classifyLine t sizes l' = Some h) \<and>
      heading_text h \<noteq> ''7'' \<and> toLowerCase (heading_text h) \<noteq> toLowerCase t)"
proof -
  have seven: "classifyLine t sizes l' = None" if "line_text l' = ''7''" for l'
    using that by (simp add: classifyLine_eq)
  have "(\<exists>l' \<in> set ls. classifyLine t sizes l' = Some h) \<and>
      heading_text h \<noteq> ''7'' \<and> toLowerCase (heading_text h) \<noteq> toLowerCase t"
    if "h \<in> set (classifyHeadings ls t sizes)" for h
  proof -
    from classifyHeadings_subset [OF that] obtain l' where
      l': "l' \<in> set ls" "classifyLine t sizes l' = Some h"
      by blast
    then have "heading_text h = line_text l'" "3 < length (line_text l')"
      "toLowerCase (line_text l') \<noteq> toLowerCase t"
      by (auto simp: classifyLine_eq split: if_splits)
    with l' show ?thesis
      by auto
  qed
  then show ?thesis
    using seven by (auto simp: classifyLine_eq)
qed

theorem classifyLine_rejects_witness:
  "classifyLine ''My Report'' [18, 14]
      \<lparr>line_text = ''Introduction'', line_x = 72, line_y = 700, line_height = 18,
        line_fontName = ''g_d0_f1'', page = 3\<rparr>
     = Some \<lparr>heading_text = ''Introduction'', level = H1, heading_page = 3\<rparr> \<and>
   classifyLine ''My Report'' [18, 14]
      \<lparr>line_text = ''7'', line_x = 72, line_y = 700, line_height = 18,
        line_fontName = ''g_d0_f1'', page = 3\<rparr> = None \<and>
   classifyLine ''My Report'' [18, 14]
      \<lparr>line_text = ''MY REPORT'', line_x = 72, line_y = 700, line_height = 14,
        line_fontName = ''g_d0_f1'', page = 3\<rparr> = None \<and>
   classifyLine ''My Report'' [18, 14]
      \<lparr>line_text = ''2024'', line_x = 72, line_y = 700, line_height = 18,
        line_fontName = ''g_d0_f1'', page = 3\<rparr> = None \<and>
   classifyHeadings
      [\<lparr>line_text = ''Introduction'', line_x = 72, line_y = 700, line_height = 18,
        line_fontName = ''g_d0_f1'', page = 3\<rparr>,
       \<lparr>line_text = ''7'', line_x = 72, line_y = 40, line_height = 18,
        line_fontName = ''g_d0_f1'', page = 3\<rparr>] ''My Report'' [18, 14]
     = [\<lparr>heading_text = ''Introduction'', level = H1, heading_page = 3\<rparr>]"
  using classifyLine_rejects [of "\<lparr>line_text = ''Introduction'', line_x = 72, line_y = 700,
        line_height = 18, line_fontName = ''g_d0_f1'', page = 3\<rparr>" "[18, 14]" "''My Report''"
        "[\<lparr>line_text = ''Introduction'', line_x = 72, line_y = 700, line_height = 18,
        line_fontName = ''g_d0_f1'', page = 3\<rparr>,
       \<lparr>line_text = ''7'', line_x = 72, line_y = 40, line_height = 18,
        line_fontName = ''g_d0_f1'', page = 3\<rparr>]"]
    classifyLine_rejects [of "\<lparr>line_text = ''7'', line_x = 72, line_y = 700,
        line_height = 18, line_fontName = ''g_d0_f1'', page = 3\<rparr>" "[18, 14]" "''My Report''" "[]"]
    classifyLine_rejects [of "\<lparr>line_text = ''MY REPORT'', line_x = 72, line_y = 700,
        line_height = 14, line_fontName = ''g_d0_f1'', page = 3\<rparr>" "[18, 14]" "''My Report''" "[]"]
    classifyLine_rejects [of "\<lparr>line_text = ''2024'', line_x = 72, line_y = 700,
        line_height = 18, line_fontName = ''g_d0_f1'', page = 3\<rparr>" "[18, 14]" "''My Report''" "[]"]
  by code_simp

subsection \<open>Trimming and collapsing white space commute\<close>

lemma trim_rtrim: "trim s = rtrim (dropWhile is_space s)"
  by (simp add: trim_def rtrim_def)

lemma rtrim_Nil: "rtrim [] = []"
  by (simp add: rtrim_def)

lemma rtrim_Cons:
  "rtrim (c # cs) = (if \<forall>x \<in> set (c # cs). is_space x then [] else c # rtrim cs)"
proof (cases "\<forall>x \<in> set cs. is_space x")
  case True
  then have "dropWhile is_space (rev cs) = []"
    by simp
  then show ?thesis
    using True by (simp add: rtrim_def dropWhile_append)
next
  case False
  then have "dropWhile is_space (rev cs) \<noteq> []"
    by simp
  then show ?thesis
    using False by (auto simp: rtrim_def dropWhile_append)
qed

lemma rtrim_all_space: "\<forall>x \<in> set s. is_space x \<Longrightarrow> rtrim s = []"
  by (simp add: rtrim_def)

lemma rtrim_dropWhile: "rtrim (dropWhile is_space s) = dropWhile is_space (rtrim s)"
proof (induction s)
  case Nil
  then show ?case by (simp add: rtrim_Nil)
next
  case (Cons c cs)
  show ?case
  proof (cases "is_space c")
    case True
    show ?thesis
    proof (cases "\<forall>x \<in> set cs. is_space x")
      case all: True
      then have "dropWhile is_space cs = []"
        by simp
      then show ?thesis
        using True all by (simp add: rtrim_Cons rtrim_Nil del: dropWhile_eq_Nil_conv)
    next
      case False
      then show ?thesis
        using True Cons by (auto simp: rtrim_Cons)
    qed
  next
    case False
    then show ?thesis
      by (simp add: rtrim_Cons)
  qed
qed

lemma collapse_ws_eq_Nil: "collapse_ws s = [] \<longleftrightarrow> s = []"
  by (cases s) auto

lemma collapse_ws_not_all_space:
  "s \<noteq> [] \<Longrightarrow> \<not> is_space (hd s) \<Longrightarrow> \<not> (\<forall>x \<in> set (collapse_ws s). is_space x)"
  by (cases s) auto

lemma is_space_blank: "is_space CHR '' ''"
  by (simp add: is_space_def)

lemma collapse_ws_rtrim: "collapse_ws (rtrim s) = rtrim (collapse_ws s)"
proof (induction s rule: collapse_ws.induct)
  case 1
  then show ?case by (simp add: rtrim_Nil)
next
  case (2 c cs)
  show ?case
  proof (cases "is_space c")
    case False
    with 2 show ?thesis
      by (simp add: rtrim_Cons)
  next
    case True
    let ?d = "dropWhile is_space cs"
    show ?thesis
    proof (cases "\<forall>x \<in> set cs. is_space x")
      case all: True
      then have "?d = []"
        by simp
      then show ?thesis
        using True all by (simp add: rtrim_Cons rtrim_Nil is_space_blank del: dropWhile_eq_Nil_conv)
    next
      case False
      then have d: "?d \<noteq> []"
        by simp
      then have "\<not> is_space (hd ?d)"
        by (rule hd_dropWhile)
      with d have ns: "\<not> (\<forall>x \<in> set (collapse_ws ?d). is_space x)"
        by (rule collapse_ws_not_all_space)
      have "collapse_ws (rtrim (c # cs)) = collapse_ws (c # rtrim cs)"
        using False by (auto simp: rtrim_Cons)
      also have "\<dots> = CHR '' '' # collapse_ws (dropWhile is_space (rtrim cs))"
        using True by simp
      also have "\<dots> = CHR '' '' # collapse_ws (rtrim ?d)"
        by (simp add: rtrim_dropWhile)
      also have "\<dots> = CHR '' '' # rtrim (collapse_ws ?d)"
        using 2(1) [OF True] by simp
      also have "\<dots> = rtrim (CHR '' '' # collapse_ws ?d)"
        using ns by (simp add: rtrim_Cons)
      also have "\<dots> = rtrim (collapse_ws (c # cs))"
        using True by simp
      finally show ?thesis .
    qed
  qed
qed

lemma collapse_ws_hd:
  "s \<noteq> [] \<Longrightarrow> \<not> is_space (hd s) \<Longrightarrow> dropWhile is_space (collapse_ws s) = collapse_ws s"
  by (cases s) auto

lemma collapse_ws_ltrim:
  "collapse_ws (dropWhile is_space s) = dropWhile is_space (collapse_ws s)"
proof (cases s)
  case Nil
  then show ?thesis by simp
next
  case (Cons c cs)
  show ?thesis
  proof (cases "is_space c")
    case False
    then show ?thesis
      using Cons by simp
  next
    case True
    let ?d = "dropWhile is_space cs"
    have "dropWhile is_space (collapse_ws ?d) = collapse_ws ?d"
    proof (cases "?d = []")
      case True
      then show ?thesis by (simp del: dropWhile_eq_Nil_conv)
    next
      case False
      then have "\<not> is_space (hd ?d)"
        by (rule hd_dropWhile)
      with False show ?thesis
        by (rule collapse_ws_hd)
    qed
    then show ?thesis
      using True Cons by (simp add: is_space_blank)
  qed
qed

lemma collapse_ws_trim: "collapse_ws (trim s) = trim (collapse_ws s)"
  by (simp add: trim_rtrim collapse_ws_rtrim collapse_ws_ltrim)

subsection \<open>Grouping the text items of a page\<close>

lemma set_obj_entries: "set (obj_entries obj) = set obj"
  by (auto simp: obj_entries_def)

lemma distinct_obj_entries:
  "distinct (map fst obj) \<Longrightarrow> distinct (map fst (obj_entries obj))"
  by (auto simp: obj_entries_def distinct_map_filter distinct_map inj_on_def)

lemma grouped_push:
  assumes "grouped g items"
  shows "grouped (push_item g item) (items @ [item])"
proof -
  let ?y = "item_key item"
  from assms have d: "distinct (map fst g)"
    and m: "\<And>k. map_of g k =
        (if k \<in> item_key ` set items then Some (filter (\<lambda>it. item_key it = k) items) else None)"
    by (auto simp: grouped_def)
  show ?thesis
  proof (cases "map_of g ?y")
    case None
    then have p: "push_item g item = AList.update ?y [item] g"
      by (simp add: push_item_def item_key_def)
    from None m [of ?y] have nk: "?y \<notin> item_key ` set items"
      by (auto split: if_splits)
    then have "filter (\<lambda>it. item_key it = ?y) items = []"
      by (auto simp: filter_empty_conv image_iff)
    then show ?thesis
      unfolding grouped_def p using d m nk
      by (auto simp: distinct_update update_conv')
  next
    case (Some grp)
    then have p: "push_item g item = AList.update ?y (grp @ [item]) g"
      by (simp add: push_item_def item_key_def)
    from Some m [of ?y] have "grp = filter (\<lambda>it. item_key it = ?y) items"
      by (auto split: if_splits)
    then show ?thesis
      unfolding grouped_def p using d m
      by (auto simp: distinct_update update_conv')
  qed
qed

lemma grouped_group_items: "grouped (group_items items) items"
proof (induction items rule: rev_induct)
  case Nil
  then show ?case
    by (simp add: group_items_def grouped_def)
next
  case (snoc x xs)
  then show ?case
    using grouped_push [of "group_items xs" xs x] by (simp add: group_items_def)
qed

subsection \<open>The lines of a page\<close>

lemma line_of_group_merged:
  assumes "grouped g items" and "(k, grp) \<in> set g"
  shows "line_of_group p (k, grp) = Inr (merged_line p k items)"
proof -
  from assms have d: "distinct (map fst g)"
    and m: "map_of g k =
        (if k \<in> item_key ` set items then Some (filter (\<lambda>it. item_key it = k) items) else None)"
    by (simp_all add: grouped_def)
  from d assms(2) have "map_of g k = Some grp"
    by (rule map_of_is_SomeI)
  with m have k: "k \<in> item_key ` set items"
    and grp: "grp = filter (\<lambda>it. item_key it = k) items"
    by (auto split: if_splits)
  from k have "grp \<noteq> []"
    unfolding grp by (auto simp: filter_empty_conv)
  then have "length (sort_key (\<lambda>item. transform4 (transform item)) grp) \<noteq> 0"
    by simp
  then obtain a as where "sort_key (\<lambda>item. transform4 (transform item)) grp = a # as"
    by (cases "sort_key (\<lambda>item. transform4 (transform item)) grp") auto
  then show ?thesis
    unfolding grp by (simp add: line_of_group_def merged_line_def Let_def collapse_ws_trim)
qed

lemma push_lines_map:
  "(\<And>e. e \<in> set es \<Longrightarrow> line_of_group p e = Inr (f e)) \<Longrightarrow>
   push_lines p acc es = Inr (acc @ map f es)"
  by (induction es arbitrary: acc) auto

lemma insort_key_map:
  "insort_key g (f x) (map f xs) = map f (insort_key (\<lambda>a. g (f a)) x xs)"
  by (induction xs) auto

lemma sort_key_map: "sort_key g (map f xs) = map f (sort_key (\<lambda>a. g (f a)) xs)"
  by (induction xs) (auto simp: insort_key_map)

lemma sort_key_descending:
  fixes ks :: "int list"
  assumes "distinct ks"
  shows "sort_key (\<lambda>k. - real_of_int k) ks = rev (sorted_list_of_set (set ks))"
proof -
  let ?zs = "sort_key (\<lambda>k. - real_of_int k) ks"
  have "sorted (map (\<lambda>k. - real_of_int k) ?zs)"
    by (rule sorted_sort_key)
  then have "sorted_wrt (\<lambda>a b. b \<le> a) ?zs"
    by (simp add: sorted_map)
  then have "sorted (rev ?zs)"
    by (simp add: sorted_wrt_rev)
  moreover have "distinct (rev ?zs)" "set (rev ?zs) = set ks"
    using assms by simp_all
  ultimately have "rev ?zs = sorted_list_of_set (set ks)"
    by (intro sorted_distinct_set_unique) simp_all
  then show ?thesis
    by (simp add: rev_swap)
qed

lemma getLinesFromPage_eq:
  "getLinesFromPage p items =
     Inr (map (\<lambda>k. merged_line p k items)
            (rev (sorted_list_of_set (item_key ` set items))))"
proof (cases "items = []")
  case True
  then show ?thesis
    by (simp add: getLinesFromPage_def)
next
  case False
  let ?g = "group_items items"
  let ?es = "obj_entries ?g"
  have g: "grouped ?g items"
    by (rule grouped_group_items)
  have "push_lines p [] ?es = Inr ([] @ map (\<lambda>e. merged_line p (fst e) items) ?es)"
  proof (rule push_lines_map)
    fix e assume "e \<in> set ?es"
    then have "(fst e, snd e) \<in> set ?g"
      by (simp add: set_obj_entries)
    from line_of_group_merged [OF g this]
    show "line_of_group p e = Inr (merged_line p (fst e) items)"
      by simp
  qed
  then have pl: "push_lines p [] ?es = Inr (map (\<lambda>k. merged_line p k items) (map fst ?es))"
    by (simp add: comp_def)
  have d: "distinct (map fst ?es)"
    using g by (simp add: grouped_def distinct_obj_entries)
  have "set (map fst ?es) = fst ` set ?g"
    by (simp add: set_obj_entries)
  also have "\<dots> = item_key ` set items"
    using g by (auto simp: grouped_def dom_map_of_conv_image_fst [symmetric] dom_def split: if_splits)
  finally have s: "set (map fst ?es) = item_key ` set items" .
  have "sort_key (\<lambda>l. - line_y l) (map (\<lambda>k. merged_line p k items) (map fst ?es))
          = map (\<lambda>k. merged_line p k items) (sort_key (\<lambda>k. - real_of_int k) (map fst ?es))"
    by (simp add: sort_key_map merged_line_def Let_def)
  also have "\<dots> = map (\<lambda>k. merged_line p k items) (rev (sorted_list_of_set (item_key ` set items)))"
    using sort_key_descending [OF d] s by simp
  finally show ?thesis
    using False pl by (simp add: getLinesFromPage_def)
qed

lemma filter_eq_distinct: "distinct ks \<Longrightarrow> k \<in> set ks \<Longrightarrow> filter (\<lambda>x. x = k) ks = [k]"
  by (induction ks) (auto simp: filter_empty_conv)

lemma line_y_merged: "line_y (merged_line p k items) = real_of_int k"
  by (simp add: merged_line_def Let_def)

lemma page_merged: "page (merged_line p k items) = p"
  by (simp add: merged_line_def Let_def)

lemma sorted_hd_least: "sorted (map f xs) \<Longrightarrow> x \<in> set xs \<Longrightarrow> f (hd xs) \<le> f x"
  by (cases xs) auto

text \<open>
  Claim C5. \<open>getLinesFromPage\<close> always returns: there is one line for each rounded
  vertical origin of the page, and every line is such a line. For each text item, the
  lines whose \<open>y\<close> is its rounded vertical origin are exactly one line, the merged
  line of the specification: the items of that rounded origin in ascending horizontal
  order (the first one has the least horizontal origin), their texts joined by single
  spaces, white space collapsed and trimmed, \<open>y\<close> the rounded value, and \<open>x\<close>,
  \<open>height\<close> and \<open>fontName\<close> those of the horizontally first item.
\<close>

theorem getLinesFromPage_merges:
  "\<exists>ls. getLinesFromPage p items = Inr ls \<and>
     length ls = card (item_key ` set items) \<and>
     (\<forall>l \<in> set ls. \<exists>it \<in> set items. l = merged_line p (item_key it) items) \<and>
     (\<forall>it \<in> set items.
        filter (\<lambda>l. line_y l = real_of_int (item_key it)) ls
          = [merged_line p (item_key it) items] \<and>
        (\<exists>first rest.
           sort_key (\<lambda>item. transform4 (transform item))
             (filter (\<lambda>item. item_key item = item_key it) items) = first # rest \<and>
           first \<in> set items \<and> item_key first = item_key it \<and>
           (\<forall>j \<in> set items. item_key j = item_key it \<longrightarrow>
              transform4 (transform first) \<le> transform4 (transform j)) \<and>
           line_x (merged_line p (item_key it) items) = transform4 (transform first) \<and>
           line_height (merged_line p (item_key it) items) = height first \<and>
           line_fontName (merged_line p (item_key it) items) = fontName first \<and>
           line_text (merged_line p (item_key it) items)
             = trim (collapse_ws (join_space (map str (first # rest))))))"
proof -
  let ?S = "item_key ` set items"
  let ?ks = "rev (sorted_list_of_set ?S)"
  let ?ls = "map (\<lambda>k. merged_line p k items) ?ks"
  have fin: "finite ?S"
    by simp
  have ks: "distinct ?ks" "set ?ks = ?S"
    by simp_all
  have 1: "getLinesFromPage p items = Inr ?ls"
    by (rule getLinesFromPage_eq)
  have 2: "length ?ls = card ?S"
    by simp
  have 3: "\<exists>it \<in> set items. l = merged_line p (item_key it) items" if "l \<in> set ?ls" for l
    using that by auto
  have 4: "filter (\<lambda>l. line_y l = real_of_int (item_key it)) ?ls
             = [merged_line p (item_key it) items]" if "it \<in> set items" for it
  proof -
    have "filter (\<lambda>l. line_y l = real_of_int (item_key it)) ?ls
            = map (\<lambda>k. merged_line p k items) (filter (\<lambda>k. k = item_key it) ?ks)"
      by (simp add: filter_map comp_def line_y_merged)
    also have "filter (\<lambda>k. k = item_key it) ?ks = [item_key it]"
      using ks that by (intro filter_eq_distinct) auto
    finally show ?thesis
      by simp
  qed
  have 5: "\<exists>first rest.
           sort_key (\<lambda>item. transform4 (transform item))
             (filter (\<lambda>item. item_key item = item_key it) items) = first # rest \<and>
           first \<in> set items \<and> item_key first = item_key it \<and>
           (\<forall>j \<in> set items. item_key j = item_key it \<longrightarrow>
              transform4 (transform first) \<le> transform4 (transform j)) \<and>
           line_x (merged_line p (item_key it) items) = transform4 (transform first) \<and>
           line_height (merged_line p (item_key it) items) = height first \<and>
           line_fontName (merged_line p (item_key it) items) = fontName first \<and>
           line_text (merged_line p (item_key it) items)
             = trim (collapse_ws (join_space (map str (first # rest))))"
    if "it \<in> set items" for it
  proof -
    let ?f = "\<lambda>item. transform4 (transform item)"
    let ?grp = "sort_key ?f (filter (\<lambda>item. item_key item = item_key it) items)"
    have mem: "set ?grp = {j \<in> set items. item_key j = item_key it}"
      by simp
    with that have "it \<in> set ?grp"
      by simp
    then obtain first rest where fr: "?grp = first # rest"
      by (cases ?grp) auto
    have srt: "sorted (map ?f ?grp)"
      by (rule sorted_sort_key)
    have "first \<in> set ?grp"
      using fr by simp
    then have a: "first \<in> set items" "item_key first = item_key it"
      by simp_all
    have b: "?f first \<le> ?f j" if "j \<in> set items" "item_key j = item_key it" for j
    proof -
      from that have "j \<in> set ?grp"
        by simp
      from sorted_hd_least [OF srt this] show ?thesis
        by (simp add: fr)
    qed
    show ?thesis
      using fr a b by (simp add: merged_line_def Let_def)
  qed
  from 1 2 3 4 5 show ?thesis
    by blast
qed

theorem getLinesFromPage_merges_witness:
  "getLinesFromPage 1
     [\<lparr>str = ''World'', transform = Matrix 1 0 0 1 60 700, height = 20, fontName = ''g_d0_f1''\<rparr>,
      \<lparr>str = ''Hello'', transform = Matrix 1 0 0 1 10 700, height = 20, fontName = ''g_d0_f2''\<rparr>]
   = Inr [\<lparr>line_text = ''Hello World'', line_x = 10, line_y = 700, line_height = 20,
           line_fontName = ''g_d0_f2'', page = 1\<rparr>] \<and>
   getLinesFromPage 4
     [\<lparr>str = ''  wide   gaps '', transform = Matrix 1 0 0 1 90 (1201 / 2), height = 11,
        fontName = ''g_d0_f1''\<rparr>,
      \<lparr>str = '' Some'', transform = Matrix 1 0 0 1 30 (3003 / 5), height = 12,
        fontName = ''g_d0_f2''\<rparr>]
   = Inr [\<lparr>line_text = ''Some wide gaps'', line_x = 30, line_y = 601, line_height = 12,
           line_fontName = ''g_d0_f2'', page = 4\<rparr>]"
  using getLinesFromPage_merges [of 1
     "[\<lparr>str = ''World'', transform = Matrix 1 0 0 1 60 700, height = 20, fontName = ''g_d0_f1''\<rparr>,
      \<lparr>str = ''Hello'', transform = Matrix 1 0 0 1 10 700, height = 20, fontName = ''g_d0_f2''\<rparr>]"]
    getLinesFromPage_merges [of 4
     "[\<lparr>str = ''  wide   gaps '', transform = Matrix 1 0 0 1 90 (1201 / 2), height = 11,
        fontName = ''g_d0_f1''\<rparr>,
      \<lparr>str = '' Some'', transform = Matrix 1 0 0 1 30 (3003 / 5), height = 12,
        fontName = ''g_d0_f2''\<rparr>]"]
  by (auto simp: item_key_def Math_round_def merged_line_def trim_def is_space_def
      length_Suc_conv)

lemma sorted_wrt_rev_sorted_list:
  fixes S :: "int set"
  shows "sorted_wrt (\<lambda>a b. b < a) (rev (sorted_list_of_set S))"
proof -
  have "sorted_wrt (<) (sorted_list_of_set S)"
    by (simp add: strict_sorted_iff)
  then show ?thesis
    by (simp add: sorted_wrt_rev)
qed

lemma page_lines_descending:
  assumes "getLinesFromPage p items = Inr ls"
  shows "sorted_wrt (\<lambda>a b. line_y b < line_y a) ls" and "\<forall>l \<in> set ls. page l = p"
proof -
  from assms have ls: "ls = map (\<lambda>k. merged_line p k items)
            (rev (sorted_list_of_set (item_key ` set items)))"
    by (simp add: getLinesFromPage_eq)
  show "sorted_wrt (\<lambda>a b. line_y b < line_y a) ls"
    unfolding ls using sorted_wrt_rev_sorted_list [of "item_key ` set items"]
    by (simp add: sorted_wrt_map line_y_merged)
  show "\<forall>l \<in> set ls. page l = p"
    unfolding ls by (simp add: page_merged)
qed

text \<open>
  Claim C7. \<open>getLinesFromPage\<close> always returns a list of lines whose \<open>y\<close> never
  increases from one line to a later one; for a page without text items it returns the
  empty list and no error.
\<close>

theorem getLinesFromPage_ordered:
  "(\<exists>ls. getLinesFromPage p items = Inr ls \<and>
      sorted_wrt (\<lambda>a b. line_y b \<le> line_y a) ls \<and>
      (\<forall>i j. i \<le> j \<and> j < length ls \<longrightarrow> line_y (ls ! j) \<le> line_y (ls ! i))) \<and>
   getLinesFromPage p [] = Inr []"
proof -
  obtain ls where ls: "getLinesFromPage p items = Inr ls"
    by (simp add: getLinesFromPage_eq)
  from page_lines_descending(1) [OF ls]
  have s: "sorted_wrt (\<lambda>a b. line_y b \<le> line_y a) ls"
    by (rule sorted_wrt_mono_rel [rotated]) simp
  have "line_y (ls ! j) \<le> line_y (ls ! i)" if "i \<le> j" "j < length ls" for i j
  proof (cases "i = j")
    case True
    then show ?thesis by simp
  next
    case False
    with that have "i < j" by simp
    with s that show ?thesis
      by (simp add: sorted_wrt_iff_nth_less)
  qed
  with ls s show ?thesis
    by (auto simp: getLinesFromPage_def)
qed

lemma getLinesFromPage_example:
  "getLinesFromPage 2
     [\<lparr>str = ''footer'', transform = Matrix 1 0 0 1 72 40.2, height = 9, fontName = ''g_d0_f1''\<rparr>,
      \<lparr>str = ''Chapter'', transform = Matrix 1 0 0 1 72 700, height = 20, fontName = ''g_d0_f2''\<rparr>,
      \<lparr>str = ''One'', transform = Matrix 1 0 0 1 150 700.4, height = 20, fontName = ''g_d0_f2''\<rparr>]
   = Inr [\<lparr>line_text = ''Chapter One'', line_x = 72, line_y = 700, line_height = 20,
           line_fontName = ''g_d0_f2'', page = 2\<rparr>,
          \<lparr>line_text = ''footer'', line_x = 72, line_y = 40, line_height = 9,
           line_fontName = ''g_d0_f1'', page = 2\<rparr>]"
  by code_simp

theorem getLinesFromPage_ordered_witness:
  "getLinesFromPage 2
     [\<lparr>str = ''footer'', transform = Matrix 1 0 0 1 72 40.2, height = 9, fontName = ''g_d0_f1''\<rparr>,
      \<lparr>str = ''Chapter'', transform = Matrix 1 0 0 1 72 700, height = 20, fontName = ''g_d0_f2''\<rparr>,
      \<lparr>str = ''One'', transform = Matrix 1 0 0 1 150 700.4, height = 20, fontName = ''g_d0_f2''\<rparr>]
   = Inr [\<lparr>line_text = ''Chapter One'', line_x = 72, line_y = 700, line_height = 20,
           line_fontName = ''g_d0_f2'', page = 2\<rparr>,
          \<lparr>line_text = ''footer'', line_x = 72, line_y = 40, line_height = 9,
           line_fontName = ''g_d0_f1'', page = 2\<rparr>] \<and>
   sorted_wrt (\<lambda>a b. line_y b \<le> line_y a)
         [\<lparr>line_text = ''Chapter One'', line_x = 72, line_y = 700, line_height = 20,
           line_fontName = ''g_d0_f2'', page = 2\<rparr>,
          \<lparr>line_text = ''footer'', line_x = 72, line_y = 40, line_height = 9,
           line_fontName = ''g_d0_f1'', page = 2\<rparr>] \<and>
   getLinesFromPage 2 [] = Inr []"
  using getLinesFromPage_ordered [of 2
     "[\<lparr>str = ''footer'', transform = Matrix 1 0 0 1 72 40.2, height = 9, fontName = ''g_d0_f1''\<rparr>,
      \<lparr>str = ''Chapter'', transform = Matrix 1 0 0 1 72 700, height = 20, fontName = ''g_d0_f2''\<rparr>,
      \<lparr>str = ''One'', transform = Matrix 1 0 0 1 150 700.4, height = 20, fontName = ''g_d0_f2''\<rparr>]"]
  unfolding getLinesFromPage_example by simp

subsection \<open>Document order\<close>

lemma collect_lines_order:
  assumes "sorted_wrt before_in_document acc" and "\<forall>l \<in> set acc. page l < i"
  shows "\<exists>ls. collect_lines i acc pages = Inr ls \<and> sorted_wrt before_in_document ls \<and>
           (ls = [] \<longleftrightarrow> acc = [] \<and> (\<forall>items \<in> set pages. items = []))"
  using assms
proof (induction pages arbitrary: i acc)
  case Nil
  then show ?case by simp
next
  case (Cons items pages)
  obtain pl where pl: "getLinesFromPage i items = Inr pl"
    by (simp add: getLinesFromPage_eq)
  have e: "pl = [] \<longleftrightarrow> items = []"
    using pl by (auto simp: getLinesFromPage_eq)
  from page_lines_descending [OF pl]
  have d: "sorted_wrt (\<lambda>a b. line_y b < line_y a) pl" and pg: "\<forall>l \<in> set pl. page l = i"
    by simp_all
  from d pg have "sorted_wrt before_in_document pl"
    by (auto simp: before_in_document_def sorted_wrt_iff_nth_less)
  moreover have "\<forall>a \<in> set acc. \<forall>b \<in> set pl. before_in_document a b"
    using Cons.prems(2) pg by (simp add: before_in_document_def)
  ultimately have 1: "sorted_wrt before_in_document (acc @ pl)"
    using Cons.prems(1) by (simp add: sorted_wrt_append)
  from Cons.prems pg have 2: "\<forall>l \<in> set (acc @ pl). page l < Suc i"
    by (auto simp: less_Suc_eq)
  from Cons.IH [OF 1 2] pl e show ?case
    by auto
qed

lemma push_headings_pages_sorted:
  "sorted (map page ls) \<Longrightarrow> sorted (map heading_page (List.map_filter (classifyLine t sizes) ls))"
proof (induction ls)
  case Nil
  then show ?case by simp
next
  case (Cons l ls)
  have "page l \<le> heading_page h" if "h \<in> set (List.map_filter (classifyLine t sizes) ls)" for h
  proof -
    from that obtain l' where "l' \<in> set ls" "classifyLine t sizes l' = Some h"
      by (auto simp: List.map_filter_def)
    then have "heading_page h = page l'" "l' \<in> set ls"
      by (auto simp: classifyLine_eq split: if_splits)
    with Cons.prems show ?thesis
      by auto
  qed
  moreover have "heading_page h = page l" if "classifyLine t sizes l = Some h" for h
    using that by (auto simp: classifyLine_eq split: if_splits)
  ultimately show ?case
    using Cons by (auto split: option.splits)
qed

lemma keep_first_pages_sorted:
  "sorted (map heading_page hs) \<Longrightarrow> sorted (map heading_page (keep_first kept hs))"
proof (induction hs arbitrary: kept)
  case Nil
  then show ?case by simp
next
  case (Cons h hs)
  have "set (keep_first kept' hs) \<subseteq> set hs" for kept'
    by (rule keep_first_subset)
  with Cons show ?case
    by (auto simp: subset_iff)
qed

lemma before_in_document_pages:
  "sorted_wrt before_in_document ls \<Longrightarrow> sorted (map page ls)"
  by (induction ls) (auto simp: before_in_document_def)

text \<open>
  Claim C4. The candidates are the headings of the lines, taken in the order of the
  lines, and the result of \<open>classifyHeadings\<close> is the list of candidates from which
  every heading whose pair (text, page) is that of a heading kept earlier has been
  removed. So no two entries share their pair, the entries come in the order of the
  candidates, every entry is the first candidate with its pair, and every pair of a
  candidate is still present (the same text on different pages is kept for each page).
  The lines which \<open>extractOutlineFromPdf\<close> classifies are in document order: page
  ascending and, within a page, descending \<open>y\<close>; the pages of its outline ascend.
\<close>

theorem outline_keeps_first_occurrences:
  "push_headings t sizes [] ls = List.map_filter (classifyLine t sizes) ls \<and>
   classifyHeadings ls t sizes = keep_first [] (push_headings t sizes [] ls) \<and>
   distinct (map entry_key (classifyHeadings ls t sizes)) \<and>
   subseq (classifyHeadings ls t sizes) (push_headings t sizes [] ls) \<and>
   (\<forall>h \<in> set (classifyHeadings ls t sizes).
      find (\<lambda>c. entry_key c = entry_key h) (push_headings t sizes [] ls) = Some h) \<and>
   (\<forall>c \<in> set (push_headings t sizes [] ls).
      \<exists>h \<in> set (classifyHeadings ls t sizes).
        heading_text h = heading_text c \<and> heading_page h = heading_page c) \<and>
   (\<exists>allLines. collect_lines 1 [] pages = Inr allLines \<and>
      sorted_wrt before_in_document allLines \<and>
      sorted (map heading_page (classifyHeadings allLines t sizes)) \<and>
      (allLines \<noteq> [] \<longrightarrow>
         (\<exists>out. extractOutlineFromPdf pages = Inr out \<and>
            outline out = classifyHeadings allLines (title out)
                            (headingSizes (getFontStatistics allLines)))))"
proof -
  let ?c = "push_headings t sizes [] ls"
  let ?o = "classifyHeadings ls t sizes"
  have o: "?o = keep_first [] ?c"
    by (simp add: classifyHeadings_def uniqueOutline_keep_first)
  have 1: "?c = List.map_filter (classifyLine t sizes) ls"
    by (simp add: push_headings_eq)
  have 3: "distinct (map entry_key ?o)"
    unfolding o by (rule keep_first_distinct)
  have 4: "subseq ?o ?c"
    unfolding o by (rule keep_first_subseq)
  have 5: "\<forall>h \<in> set ?o. find (\<lambda>c. entry_key c = entry_key h) ?c = Some h"
    unfolding o by (auto intro: keep_first_find)
  have 6: "\<exists>h \<in> set ?o. heading_text h = heading_text c \<and> heading_page h = heading_page c"
    if "c \<in> set ?c" for c
  proof -
    have "entry_key c \<in> set (map entry_key (keep_first [] ?c))"
      using that by (simp only: keep_first_keys) simp
    then show ?thesis
      unfolding o by (auto simp: entry_key_def)
  qed
  have "sorted_wrt before_in_document []" "\<forall>l \<in> set ([] :: Line list). page l < 1"
    by simp_all
  from collect_lines_order [OF this, of pages]
  obtain allLines where a: "collect_lines 1 [] pages = Inr allLines"
    "sorted_wrt before_in_document allLines"
    by auto
  from a(2) have "sorted (map page allLines)"
    by (rule before_in_document_pages)
  then have "sorted (map heading_page (List.map_filter (classifyLine t sizes) allLines))"
    by (rule push_headings_pages_sorted)
  then have 7: "sorted (map heading_page (classifyHeadings allLines t sizes))"
    by (simp add: classifyHeadings_def uniqueOutline_keep_first push_headings_eq
        keep_first_pages_sorted)
  have 8: "\<exists>out. extractOutlineFromPdf pages = Inr out \<and>
            outline out = classifyHeadings allLines (title out)
                            (headingSizes (getFontStatistics allLines))"
    if "allLines \<noteq> []"
    using that a(1) by (simp add: extractOutlineFromPdf_def Let_def)
  from 1 o 3 4 5 6 a 7 8 show ?thesis
    by blast
qed

lemma outline_example:
  "extractOutlineFromPdf
     [[\<lparr>str = ''Overview'', transform = Matrix 1 0 0 1 72 700, height = 18, fontName = ''g_d0_f2''\<rparr>,
       \<lparr>str = ''Body text of the first page'', transform = Matrix 1 0 0 1 72 680, height = 12, fontName = ''g_d0_f1''\<rparr>,
       \<lparr>str = ''Overview'', transform = Matrix 1 0 0 1 72 400, height = 18, fontName = ''g_d0_f2''\<rparr>],
      [\<lparr>str = ''Overview'', transform = Matrix 1 0 0 1 72 700, height = 18, fontName = ''g_d0_f2''\<rparr>,
       \<lparr>str = ''Body text of the second page'', transform = Matrix 1 0 0 1 72 680, height = 12, fontName = ''g_d0_f1''\<rparr>]]
   = Inr \<lparr>title = ''Overview Overview Overview'',
          outline = [\<lparr>heading_text = ''Overview'', level = H1, heading_page = 1\<rparr>,
                     \<lparr>heading_text = ''Overview'', level = H1, heading_page = 2\<rparr>]\<rparr>"
  by code_simp

lemma candidates_example:
  "push_headings ''Report'' [18] []
     [\<lparr>line_text = ''Overview'', line_x = 72, line_y = 700, line_height = 18,
        line_fontName = ''g_d0_f2'', page = 1\<rparr>,
      \<lparr>line_text = ''Overview'', line_x = 72, line_y = 400, line_height = 18,
        line_fontName = ''g_d0_f2'', page = 1\<rparr>,
      \<lparr>line_text = ''Overview'', line_x = 72, line_y = 700, line_height = 18,
        line_fontName = ''g_d0_f2'', page = 2\<rparr>]
   = [\<lparr>heading_text = ''Overview'', level = H1, heading_page = 1\<rparr>,
      \<lparr>heading_text = ''Overview'', level = H1, heading_page = 1\<rparr>,
      \<lparr>heading_text = ''Overview'', level = H1, heading_page = 2\<rparr>]"
  by code_simp

lemma classifyHeadings_example:
  "classifyHeadings
     [\<lparr>line_text = ''Overview'', line_x = 72, line_y = 700, line_height = 18,
        line_fontName = ''g_d0_f2'', page = 1\<rparr>,
      \<lparr>line_text = ''Overview'', line_x = 72, line_y = 400, line_height = 18,
        line_fontName = ''g_d0_f2'', page = 1\<rparr>,
      \<lparr>line_text = ''Overview'', line_x = 72, line_y = 700, line_height = 18,
        line_fontName = ''g_d0_f2'', page = 2\<rparr>] ''Report'' [18]
   = [\<lparr>heading_text = ''Overview'', level = H1, heading_page = 1\<rparr>,
      \<lparr>heading_text = ''Overview'', level = H1, heading_page = 2\<rparr>]"
  by code_simp

theorem outline_keeps_first_occurrences_witness:
  "classifyHeadings
     [\<lparr>line_text = ''Overview'', line_x = 72, line_y = 700, line_height = 18,
        line_fontName = ''g_d0_f2'', page = 1\<rparr>,
      \<lparr>line_text = ''Overview'', line_x = 72, line_y = 400, line_height = 18,
        line_fontName = ''g_d0_f2'', page = 1\<rparr>,
      \<lparr>line_text = ''Overview'', line_x = 72, line_y = 700, line_height = 18,
        line_fontName = ''g_d0_f2'', page = 2\<rparr>] ''Report'' [18]
   = [\<lparr>heading_text = ''Overview'', level = H1, heading_page = 1\<rparr>,
      \<lparr>heading_text = ''Overview'', level = H1, heading_page = 2\<rparr>] \<and>
   distinct (map entry_key
     [\<lparr>heading_text = ''Overview'', level = H1, heading_page = 1\<rparr>,
      \<lparr>heading_text = ''Overview'', level = H1, heading_page = 2\<rparr>]) \<and>
   subseq
     [\<lparr>heading_text = ''Overview'', level = H1, heading_page = 1\<rparr>,
      \<lparr>heading_text = ''Overview'', level = H1, heading_page = 2\<rparr>]
     [\<lparr>heading_text = ''Overview'', level = H1, heading_page = 1\<rparr>,
      \<lparr>heading_text = ''Overview'', level = H1, heading_page = 1\<rparr>,
      \<lparr>heading_text = ''Overview'', level = H1, heading_page = 2\<rparr>]"
proof -
  note inst = outline_keeps_first_occurrences [of "''Report''" "[18]"
     "[\<lparr>line_text = ''Overview'', line_x = 72, line_y = 700, line_height = 18,
        line_fontName = ''g_d0_f2'', page = 1\<rparr>,
      \<lparr>line_text = ''Overview'', line_x = 72, line_y = 400, line_height = 18,
        line_fontName = ''g_d0_f2'', page = 1\<rparr>,
      \<lparr>line_text = ''Overview'', line_x = 72, line_y = 700, line_height = 18,
        line_fontName = ''g_d0_f2'', page = 2\<rparr>]" "[]"]
  from inst [THEN conjunct2, THEN conjunct2, THEN conjunct1]
  have d: "distinct (map entry_key
     [\<lparr>heading_text = ''Overview'', level = H1, heading_page = 1\<rparr>,
      \<lparr>heading_text = ''Overview'', level = H1, heading_page = 2\<rparr>])"
    unfolding classifyHeadings_example .
  from inst [THEN conjunct2, THEN conjunct2, THEN conjunct2, THEN conjunct1]
  have s: "subseq
     [\<lparr>heading_text = ''Overview'', level = H1, heading_page = 1\<rparr>,
      \<lparr>heading_text = ''Overview'', level = H1, heading_page = 2\<rparr>]
     [\<lparr>heading_text = ''Overview'', level = H1, heading_page = 1\<rparr>,
      \<lparr>heading_text = ''Overview'', level = H1, heading_page = 1\<rparr>,
      \<lparr>heading_text = ''Overview'', level = H1, heading_page = 2\<rparr>]"
    unfolding classifyHeadings_example candidates_example .
  from d s show ?thesis
    unfolding classifyHeadings_example by (intro conjI refl)
qed

subsection \<open>A rounded difference below 1\<close>

lemma round_half_even_le: "y \<le> real_of_int m \<Longrightarrow> round_half_even y \<le> m"
proof -
  assume a: "y \<le> real_of_int m"
  then have f: "\<lfloor>y\<rfloor> \<le> m"
    by (simp add: floor_le_iff)
  show ?thesis
  proof (cases "\<lfloor>y\<rfloor> = m")
    case True
    with a have "y - real_of_int \<lfloor>y\<rfloor> \<le> 0"
      by simp
    then show ?thesis
      using True by (simp add: round_half_even_def Let_def)
  next
    case False
    with f have "\<lfloor>y\<rfloor> + 1 \<le> m"
      by simp
    then show ?thesis
      by (simp add: round_half_even_def Let_def)
  qed
qed

lemma round_half_even_ge: "real_of_int m \<le> y \<Longrightarrow> m \<le> round_half_even y"
proof -
  assume "real_of_int m \<le> y"
  then have "m \<le> \<lfloor>y\<rfloor>"
    by (simp add: le_floor_iff)
  then show ?thesis
    by (simp add: round_half_even_def Let_def)
qed

lemma round_half_even_odd:
  assumes "odd m"
  shows "round_half_even y \<le> m \<longleftrightarrow> y < real_of_int m + 1 / 2"
proof
  assume l: "y < real_of_int m + 1 / 2"
  then have "y < real_of_int (m + 1)"
    by simp
  then have f: "\<lfloor>y\<rfloor> \<le> m"
    by linarith
  show "round_half_even y \<le> m"
  proof (cases "\<lfloor>y\<rfloor> = m")
    case True
    with l have "y - real_of_int \<lfloor>y\<rfloor> < 1 / 2"
      by simp
    then show ?thesis
      using True by (simp add: round_half_even_def Let_def)
  next
    case False
    with f have "\<lfloor>y\<rfloor> + 1 \<le> m"
      by simp
    then show ?thesis
      by (simp add: round_half_even_def Let_def)
  qed
next
  assume r: "round_half_even y \<le> m"
  show "y < real_of_int m + 1 / 2"
  proof (rule ccontr)
    assume "\<not> y < real_of_int m + 1 / 2"
    then have g: "real_of_int m + 1 / 2 \<le> y"
      by simp
    then have "real_of_int m \<le> y"
      by simp
    then have f: "m \<le> \<lfloor>y\<rfloor>"
      by (simp add: le_floor_iff)
    show False
    proof (cases "\<lfloor>y\<rfloor> = m")
      case True
      with g have "1 / 2 \<le> y - real_of_int \<lfloor>y\<rfloor>"
        by simp
      then have "round_half_even y = m + 1"
        using True assms by (auto simp: round_half_even_def Let_def)
      with r show False
        by simp
    next
      case False
      with f have "m + 1 \<le> \<lfloor>y\<rfloor>"
        by simp
      moreover have "\<lfloor>y\<rfloor> \<le> round_half_even y"
        by (simp add: round_half_even_def Let_def)
      ultimately show False
        using r by simp
    qed
  qed
qed

lemma bitlen_ge2:
  assumes "2 \<le> a"
  shows "2 \<le> bitlen a"
proof -
  from assms have "0 < a div 2"
    by simp
  then have "bitlen (a div 2) = bitlen (a div 2 div 2) + 1"
    by (subst compute_bitlen) simp
  then have "1 \<le> bitlen (a div 2)"
    using bitlen_nonneg [of "a div 2 div 2"] by simp
  moreover have "bitlen a = bitlen (a div 2) + 1"
    using assms by (subst compute_bitlen) simp
  ultimately show ?thesis
    by simp
qed

lemma binary64_lt_one:
  "(case binary64 x of None \<Rightarrow> False | Some d \<Rightarrow> \<bar>d\<bar> < 1) \<longleftrightarrow> \<bar>x\<bar> < 1 - 1 / 2 ^ 54"
proof (cases "x = 0")
  case True
  then show ?thesis
    by (simp add: binary64_def)
next
  case False
  define d where "d = \<bar>x\<bar>"
  define e where "e = max (exponent_of x) (- 1022)"
  define q :: real where "q = 2 powi (e - 52)"
  define n where "n = round_half_even (d / q)"
  define r where "r = real_of_int n * q"
  have d: "0 < d"
    using False by (simp add: d_def)
  have q: "0 < q"
    by (simp add: q_def)
  have "0 \<le> d / q"
    using d q by simp
  then have "0 \<le> n"
    unfolding n_def using round_half_even_ge [of 0 "d / q"] by simp
  then have r: "0 \<le> r"
    using q by (simp add: r_def)
  have b: "binary64 x = (if 2 powi 1024 \<le> r then None else Some (sgn x * r))"
    using False by (simp add: binary64_def Let_def r_def n_def q_def e_def d_def)
  have "\<bar>sgn x * r\<bar> = r"
    using False r by (simp add: abs_mult)
  moreover have "(1::real) \<le> 2 powi 1024"
    by simp
  ultimately have lhs: "(case binary64 x of None \<Rightarrow> False | Some d \<Rightarrow> \<bar>d\<bar> < 1) \<longleftrightarrow> r < 1"
    unfolding b by auto
  have scale: "real_of_int m * q = 2 powi (e + 1)" if "m = 2 ^ 53" for m :: int
  proof -
    have "(2::real) powi (53 + (e - 52)) = 2 powi 53 * 2 powi (e - 52)"
      by (rule power_int_add) simp
    moreover have "53 + (e - 52) = e + 1"
      by simp
    ultimately have "(2::real) powi (e + 1) = 2 powi 53 * 2 powi (e - 52)"
      by simp
    then show ?thesis
      using that by (simp add: q_def)
  qed
  have scale': "real_of_int m * q = 2 powi e" if "m = 2 ^ 52" for m :: int
  proof -
    have "(2::real) powi (52 + (e - 52)) = 2 powi 52 * 2 powi (e - 52)"
      by (rule power_int_add) simp
    then have "(2::real) powi e = 2 powi 52 * 2 powi (e - 52)"
      by simp
    then show ?thesis
      using that by (simp add: q_def)
  qed
  have rhs: "r < 1 \<longleftrightarrow> d < 1 - 1 / 2 ^ 54"
  proof (cases "1 \<le> d")
    case True
    then have fl: "0 < \<lfloor>d\<rfloor>"
      by simp
    have e0: "exponent_of x = bitlen \<lfloor>d\<rfloor> - 1"
      using True by (simp add: exponent_of_def d_def)
    from bitlen_bounds [OF fl] have bb: "2 ^ nat (bitlen \<lfloor>d\<rfloor> - 1) \<le> \<lfloor>d\<rfloor>"
      by simp
    have "1 \<le> bitlen \<lfloor>d\<rfloor>"
      using fl by (auto simp: bitlen_alt_def)
    then have en: "0 \<le> exponent_of x"
      by (simp add: e0)
    then have ee: "e = exponent_of x"
      by (simp add: e_def)
    have "(2::real) powi e = 2 ^ nat (bitlen \<lfloor>d\<rfloor> - 1)"
      using en by (simp add: ee e0 power_int_def)
    also have "\<dots> = real_of_int (2 ^ nat (bitlen \<lfloor>d\<rfloor> - 1))"
      by simp
    also have "\<dots> \<le> real_of_int \<lfloor>d\<rfloor>"
      using bb by (simp only: of_int_le_iff)
    also have "\<dots> \<le> d"
      by simp
    finally have lo: "2 powi e \<le> d" .
    then have "real_of_int (2 ^ 52) * q \<le> d"
      using scale' [of "2 ^ 52"] by simp
    then have "real_of_int (2 ^ 52) \<le> d / q"
      using q by (simp add: pos_le_divide_eq)
    then have "2 ^ 52 \<le> n"
      unfolding n_def by (rule round_half_even_ge)
    then have "real_of_int (2 ^ 52) \<le> real_of_int n"
      by (simp only: of_int_le_iff)
    then have "real_of_int (2 ^ 52) * q \<le> r"
      unfolding r_def using q by (simp only: mult_le_cancel_right_pos)
    then have "2 powi e \<le> r"
      using scale' [of "2 ^ 52"] by simp
    moreover have "(1::real) \<le> 2 powi e"
      using en ee by (simp add: power_int_def)
    ultimately have "1 \<le> r"
      by simp
    with True show ?thesis
      by simp
  next
    case False
    then have d1: "d < 1"
      by simp
    let ?a = "\<lceil>1 / d\<rceil> - 1"
    have e0: "exponent_of x = - bitlen ?a"
      using False by (simp add: exponent_of_def d_def)
    have inv: "1 < 1 / d"
      using d d1 by simp
    then have a: "0 < ?a"
      by (simp add: less_ceiling_iff)
    have alt: "real_of_int ?a < 1 / d"
      by (simp add: ceiling_correct) 
    show ?thesis
    proof (cases "d < 1 / 2")
      case True
      then have "2 < 1 / d"
        using d by (simp add: field_simps)
      then have a2: "2 \<le> ?a"
        using less_ceiling_iff [of 2 "1 / d"] by simp
      then have b2: "2 \<le> bitlen ?a"
        by (rule bitlen_ge2)
      then have e2: "e \<le> - 2"
        by (simp add: e_def e0)
      from bitlen_bounds [OF a] have "2 ^ nat (bitlen ?a - 1) \<le> ?a"
        by simp
      then have "real_of_int (2 ^ nat (bitlen ?a - 1)) \<le> real_of_int ?a"
        by (simp only: of_int_le_iff)
      with alt have "2 ^ nat (bitlen ?a - 1) < 1 / d"
        by simp
      then have "d * 2 ^ nat (bitlen ?a - 1) < 1"
        using d by (simp add: field_simps)
      then have "d < 1 / 2 ^ nat (bitlen ?a - 1)"
        by (simp add: field_simps)
      also have "1 / 2 ^ nat (bitlen ?a - 1) = (2::real) powi (exponent_of x + 1)"
        using b2 by (simp add: e0 power_int_def field_simps nat_diff_distrib)
      also have "\<dots> \<le> 2 powi (e + 1)"
        by (rule power_int_increasing) (simp_all add: e_def)
      finally have "d < real_of_int (2 ^ 53) * q"
        using scale [of "2 ^ 53"] by simp
      then have "d / q \<le> real_of_int (2 ^ 53)"
        using q by (simp add: pos_divide_le_eq)
      then have "n \<le> 2 ^ 53"
        unfolding n_def by (rule round_half_even_le)
      then have "real_of_int n \<le> real_of_int (2 ^ 53)"
        by (simp only: of_int_le_iff)
      then have "r \<le> real_of_int (2 ^ 53) * q"
        unfolding r_def using q by (simp only: mult_le_cancel_right_pos)
      also have "\<dots> = 2 powi (e + 1)"
        using scale [of "2 ^ 53"] by simp
      also have "\<dots> \<le> 2 powi (- 1)"
        using e2 by (intro power_int_increasing) simp_all
      finally have "r \<le> 1 / 2"
        by simp
      with True show ?thesis
        by simp
    next
      case half: False
      have "\<lceil>1 / d\<rceil> = 2"
      proof (rule ceiling_unique)
        show "real_of_int 2 - 1 < 1 / d"
          using inv by simp
        show "1 / d \<le> real_of_int 2"
          using half d by (simp add: field_simps)
      qed
      then have "?a = 1"
        by simp
      moreover have "bitlen 1 = 1"
        by (simp add: bitlen_alt_def)
      ultimately have "e = - 1"
        by (simp add: e_def e0)
      then have qv: "q = 1 / 2 ^ 53"
        by (simp add: q_def inverse_eq_divide)
      have "r < 1 \<longleftrightarrow> real_of_int n < 2 ^ 53"
        by (simp add: r_def qv field_simps)
      also have "\<dots> \<longleftrightarrow> n < 2 ^ 53"
        using of_int_less_iff [of n "2 ^ 53", where ?'a = real] by simp
      also have "\<dots> \<longleftrightarrow> n \<le> 2 ^ 53 - 1"
        by linarith
      also have "\<dots> \<longleftrightarrow> d / q < real_of_int (2 ^ 53 - 1) + 1 / 2"
        unfolding n_def by (rule round_half_even_odd) simp
      also have "\<dots> \<longleftrightarrow> d < 1 - 1 / 2 ^ 54"
        by (simp add: qv field_simps)
      finally show ?thesis .
    qed
  qed
  from lhs rhs show ?thesis
    by (simp add: d_def)
qed

lemma within_one_Finite: "within_one h (Finite v) \<longleftrightarrow> \<bar>h - v\<bar> < 1 - 1 / 2 ^ 54"
  by (simp add: within_one_def binary64_lt_one)

subsection \<open>Title\<close>

lemma Math_max_eq: "Math_max vs = (if vs = [] then NegInfinity else Finite (Max (set vs)))"
proof (induction vs)
  case Nil
  then show ?case by simp
next
  case (Cons v vs)
  then show ?case
    by (cases "vs = []") (simp_all add: max.commute)
qed

lemma Math_max_cong: "set vs = set ws \<Longrightarrow> Math_max vs = Math_max ws"
  by (auto simp: Math_max_eq)

lemma sort_key_idem: "sort_key f (sort_key f xs) = sort_key f xs"
  by (simp add: sort_key_id_if_sorted)

lemma extractTitle_eq:
  "extractTitle ls =
     join_space (map line_text (sort_key (\<lambda>l. - line_y l)
       (filter (\<lambda>l. page l \<le> 2 \<and>
            within_one (line_height l) (Math_max (map line_height (filter (\<lambda>l. page l \<le> 2) ls))))
          ls)))"
proof -
  let ?f = "\<lambda>l. - line_y l"
  let ?F = "filter (\<lambda>l. page l \<le> 2) ls"
  have m: "Math_max (map line_height (sort_key ?f ?F)) = Math_max (map line_height ?F)"
    by (rule Math_max_cong) simp
  have "sort_key ?f (filter Q (sort_key ?f ?F)) = sort_key ?f (filter (\<lambda>l. page l \<le> 2 \<and> Q l) ls)" for Q
    by (simp add: filter_sort sort_key_idem)
  then show ?thesis
    by (simp add: extractTitle_def Let_def m)
qed

text \<open>
  Claim C6, as the code has it. The difference between a height and the maximum is a
  binary64 number, and its rounding counts: the rounded difference is below 1 exactly
  when the exact difference is below \<open>1 - 2\<^sup>-\<^sup>5\<^sup>4\<close>. When some line lies on page
  1 or 2, the title is made of the texts of exactly those lines of pages 1 and 2 whose
  height differs from the maximum height of these lines by less than
  \<open>1 - 2\<^sup>-\<^sup>5\<^sup>4\<close>, in the order of descending \<open>y\<close> (lines of equal \<open>y\<close> keep
  their order), joined by single spaces. Three lines of heights 22, 22 and 14 at \<open>y\<close>
  750, 720 and 690 on these pages give the two texts of height 22, top first.
\<close>

theorem title_from_largest_lines:
  "((\<exists>l \<in> set ls. page l \<le> 2) \<longrightarrow>
      extractTitle ls =
        join_space (map line_text (sort_key (\<lambda>l. - line_y l)
          (filter (\<lambda>l. page l \<le> 2 \<and>
               \<bar>line_height l - Max (set (map line_height (filter (\<lambda>l. page l \<le> 2) ls)))\<bar>
                 < 1 - 1 / 2 ^ 54) ls)))) \<and>
   ((case binary64 (h - m) of None \<Rightarrow> False | Some d \<Rightarrow> \<bar>d\<bar> < 1) \<longleftrightarrow>
      \<bar>h - m\<bar> < 1 - 1 / 2 ^ 54) \<and>
   (page a \<le> 2 \<and> page b \<le> 2 \<and> page c \<le> 2 \<and>
    line_height a = 22 \<and> line_height b = 22 \<and> line_height c = 14 \<and>
    line_y a = 750 \<and> line_y b = 720 \<and> line_y c = 690 \<longrightarrow>
      extractTitle [a, b, c] = line_text a @ CHR '' '' # line_text b)"
proof -
  have 1: "extractTitle ls =
        join_space (map line_text (sort_key (\<lambda>l. - line_y l)
          (filter (\<lambda>l. page l \<le> 2 \<and>
               \<bar>line_height l - Max (set (map line_height (filter (\<lambda>l. page l \<le> 2) ls)))\<bar>
                 < 1 - 1 / 2 ^ 54) ls)))"
    if "\<exists>l \<in> set ls. page l \<le> 2"
  proof -
    from that have ne: "filter (\<lambda>l. page l \<le> 2) ls \<noteq> []"
      by (auto simp: filter_empty_conv)
    from ne have "Math_max (map line_height (filter (\<lambda>l. page l \<le> 2) ls))
            = Finite (Max (set (map line_height (filter (\<lambda>l. page l \<le> 2) ls))))"
      by (simp only: Math_max_eq) simp
    then show ?thesis
      by (simp add: extractTitle_eq within_one_Finite)
  qed
  have 2: "extractTitle [a, b, c] = line_text a @ CHR '' '' # line_text b"
    if "page a \<le> 2 \<and> page b \<le> 2 \<and> page c \<le> 2 \<and>
    line_height a = 22 \<and> line_height b = 22 \<and> line_height c = 14 \<and>
    line_y a = 750 \<and> line_y b = 720 \<and> line_y c = 690"
    using that by (simp add: extractTitle_eq within_one_Finite)
  from 1 2 binary64_lt_one [of "h - m"] show ?thesis
    by blast
qed

theorem title_from_largest_lines_witness:
  "extractTitle
     [\<lparr>line_text = ''Annual'', line_x = 72, line_y = 750, line_height = 22,
        line_fontName = ''g_d0_f2'', page = 1\<rparr>,
      \<lparr>line_text = ''Report'', line_x = 72, line_y = 720, line_height = 22,
        line_fontName = ''g_d0_f2'', page = 1\<rparr>,
      \<lparr>line_text = ''Prepared by the board'', line_x = 72, line_y = 690, line_height = 14,
        line_fontName = ''g_d0_f1'', page = 2\<rparr>]
   = ''Annual Report'' \<and>
   extractTitle
     [\<lparr>line_text = ''Annual'', line_x = 72, line_y = 750, line_height = 22,
        line_fontName = ''g_d0_f2'', page = 1\<rparr>,
      \<lparr>line_text = ''Report'', line_x = 72, line_y = 720, line_height = 22,
        line_fontName = ''g_d0_f2'', page = 1\<rparr>,
      \<lparr>line_text = ''Prepared by the board'', line_x = 72, line_y = 690, line_height = 14,
        line_fontName = ''g_d0_f1'', page = 2\<rparr>,
      \<lparr>line_text = ''2024'', line_x = 72, line_y = 660, line_height = 21.5,
        line_fontName = ''g_d0_f2'', page = 2\<rparr>]
   = ''Annual Report 2024''"
  using title_from_largest_lines [of
     "[\<lparr>line_text = ''Annual'', line_x = 72, line_y = 750, line_height = 22,
        line_fontName = ''g_d0_f2'', page = 1\<rparr>,
      \<lparr>line_text = ''Report'', line_x = 72, line_y = 720, line_height = 22,
        line_fontName = ''g_d0_f2'', page = 1\<rparr>,
      \<lparr>line_text = ''Prepared by the board'', line_x = 72, line_y = 690, line_height = 14,
        line_fontName = ''g_d0_f1'', page = 2\<rparr>]" _ _
     "\<lparr>line_text = ''Annual'', line_x = 72, line_y = 750, line_height = 22,
        line_fontName = ''g_d0_f2'', page = 1\<rparr>"
     "\<lparr>line_text = ''Report'', line_x = 72, line_y = 720, line_height = 22,
        line_fontName = ''g_d0_f2'', page = 1\<rparr>"
     "\<lparr>line_text = ''Prepared by the board'', line_x = 72, line_y = 690, line_height = 14,
        line_fontName = ''g_d0_f1'', page = 2\<rparr>"]
   title_from_largest_lines [of
     "[\<lparr>line_text = ''Annual'', line_x = 72, line_y = 750, line_height = 22,
        line_fontName = ''g_d0_f2'', page = 1\<rparr>,
      \<lparr>line_text = ''Report'', line_x = 72, line_y = 720, line_height = 22,
        line_fontName = ''g_d0_f2'', page = 1\<rparr>,
      \<lparr>line_text = ''Prepared by the board'', line_x = 72, line_y = 690, line_height = 14,
        line_fontName = ''g_d0_f1'', page = 2\<rparr>,
      \<lparr>line_text = ''2024'', line_x = 72, line_y = 660, line_height = 21.5,
        line_fontName = ''g_d0_f2'', page = 2\<rparr>]"]
  by simp

text \<open>
  The claim as the specification states it, with the exact difference below 1, fails
  for the heights \<open>2\<^sup>-\<^sup>6\<^sup>0\<close> and 1: the exact difference \<open>1 - 2\<^sup>-\<^sup>6\<^sup>0\<close> is below 1,
  but it rounds to 1, and the code leaves the small line out of the title.
\<close>

theorem title_from_largest_lines_counterexample:
  "extractTitle
     [\<lparr>line_text = ''Tiny'', line_x = 72, line_y = 750, line_height = 1 / 2 ^ 60,
        line_fontName = ''g_d0_f1'', page = 1\<rparr>,
      \<lparr>line_text = ''Big one'', line_x = 72, line_y = 700, line_height = 1,
        line_fontName = ''g_d0_f2'', page = 1\<rparr>]
   = ''Big one'' \<and>
   Math_max (map line_height
     [\<lparr>line_text = ''Tiny'', line_x = 72, line_y = 750, line_height = 1 / 2 ^ 60,
        line_fontName = ''g_d0_f1'', page = 1\<rparr>,
      \<lparr>line_text = ''Big one'', line_x = 72, line_y = 700, line_height = 1,
        line_fontName = ''g_d0_f2'', page = 1\<rparr>])
   = Finite 1 \<and>
   \<bar>line_height
      \<lparr>line_text = ''Tiny'', line_x = 72, line_y = 750, line_height = 1 / 2 ^ 60,
        line_fontName = ''g_d0_f1'', page = 1\<rparr> - 1\<bar> < 1"
  by (simp add: extractTitle_eq within_one_Finite)

subsection \<open>Failures\<close>

lemma collect_lines_total:
  "\<exists>ls. collect_lines 1 [] pages = Inr ls \<and> (ls = [] \<longleftrightarrow> (\<forall>items \<in> set pages. items = []))"
proof -
  have "sorted_wrt before_in_document []" "\<forall>l \<in> set ([] :: Line list). page l < 1"
    by simp_all
  from collect_lines_order [OF this, of pages] show ?thesis
    by auto
qed

text \<open>
  Claim C8. A document none of whose pages has a text item (so that no line is
  assembled) makes \<open>extractOutlineFromPdf\<close> fail with \<open>EmptyExtraction\<close>, and
  \<open>handleExtract\<close> reports that error and no outline. A document with a text item
  does not fail in this way.
\<close>

theorem no_text_is_EmptyExtraction:
  "((\<forall>items \<in> set pages. items = []) \<longrightarrow>
      extractOutlineFromPdf pages = Inl EmptyExtraction \<and>
      handleExtract (Some pages) = Inl EmptyExtraction) \<and>
   ((\<exists>items \<in> set pages. items \<noteq> []) \<longrightarrow>
      extractOutlineFromPdf pages \<noteq> Inl EmptyExtraction)"
proof -
  obtain ls where ls: "collect_lines 1 [] pages = Inr ls"
    "ls = [] \<longleftrightarrow> (\<forall>items \<in> set pages. items = [])"
    using collect_lines_total by blast
  then show ?thesis
    by (auto simp: extractOutlineFromPdf_def handleExtract_def Let_def)
qed

theorem no_text_is_EmptyExtraction_witness:
  "extractOutlineFromPdf [[], [], []] = Inl EmptyExtraction \<and>
   handleExtract (Some [[], [], []]) = Inl EmptyExtraction \<and>
   extractOutlineFromPdf [] = Inl EmptyExtraction \<and>
   extractOutlineFromPdf
     [[], [\<lparr>str = ''Word'', transform = Matrix 1 0 0 1 72 700, height = 12,
            fontName = ''g_d0_f1''\<rparr>]] \<noteq> Inl EmptyExtraction"
  using no_text_is_EmptyExtraction [of "[[], [], []]"] no_text_is_EmptyExtraction [of "[]"]
    no_text_is_EmptyExtraction [of "[[], [\<lparr>str = ''Word'', transform = Matrix 1 0 0 1 72 700,
            height = 12, fontName = ''g_d0_f1''\<rparr>]]"]
  by simp

text \<open>
  Claim C9. When \<open>extractOutlineFromPdf\<close> returns an outline whose title is the empty
  string and whose list of headings is empty, \<open>handleExtract\<close> reports
  \<open>NoStructureFound\<close> instead of the outline; when the title is not empty or there
  is a heading, it reports the outline. \<open>NoStructureFound\<close> is reported in no other
  case.
\<close>

theorem empty_result_is_NoStructureFound:
  "(extractOutlineFromPdf pages = Inr r \<longrightarrow>
     (title r = [] \<and> outline r = [] \<longrightarrow> handleExtract (Some pages) = Inl NoStructureFound) \<and>
     (title r \<noteq> [] \<or> outline r \<noteq> [] \<longrightarrow> handleExtract (Some pages) = Inr r)) \<and>
   (handleExtract (Some pages) = Inl NoStructureFound \<longleftrightarrow>
     (\<exists>r'. extractOutlineFromPdf pages = Inr r' \<and> title r' = [] \<and> outline r' = []))"
proof -
  have "extractOutlineFromPdf pages = Inl EmptyExtraction \<or> (\<exists>r'. extractOutlineFromPdf pages = Inr r')"
    using collect_lines_total [of pages]
    by (auto simp: extractOutlineFromPdf_def Let_def)
  then show ?thesis
    by (auto simp: handleExtract_def split: if_splits)
qed

lemma blank_document_example:
  "extractOutlineFromPdf
     [[\<lparr>str = ''  '', transform = Matrix 1 0 0 1 72 700, height = 12, fontName = ''g_d0_f1''\<rparr>]]
   = Inr \<lparr>title = [], outline = []\<rparr>"
  by code_simp

lemma one_word_document_example:
  "extractOutlineFromPdf
     [[\<lparr>str = ''Word'', transform = Matrix 1 0 0 1 72 700, height = 12, fontName = ''g_d0_f1''\<rparr>]]
   = Inr \<lparr>title = ''Word'', outline = []\<rparr>"
  by code_simp

theorem empty_result_is_NoStructureFound_witness:
  "handleExtract (Some
     [[\<lparr>str = ''  '', transform = Matrix 1 0 0 1 72 700, height = 12, fontName = ''g_d0_f1''\<rparr>]])
   = Inl NoStructureFound \<and>
   handleExtract (Some
     [[\<lparr>str = ''Word'', transform = Matrix 1 0 0 1 72 700, height = 12, fontName = ''g_d0_f1''\<rparr>]])
   = Inr \<lparr>title = ''Word'', outline = []\<rparr>"
  using empty_result_is_NoStructureFound [of
      "[[\<lparr>str = ''  '', transform = Matrix 1 0 0 1 72 700, height = 12, fontName = ''g_d0_f1''\<rparr>]]"
      "\<lparr>title = [], outline = []\<rparr>"]
    empty_result_is_NoStructureFound [of
      "[[\<lparr>str = ''Word'', transform = Matrix 1 0 0 1 72 700, height = 12, fontName = ''g_d0_f1''\<rparr>]]"
      "\<lparr>title = ''Word'', outline = []\<rparr>"]
  unfolding blank_document_example one_word_document_example by simp

text \<open>
  Claim C10. For a document with at least one line and no line on page 1 or 2, the
  title step does not fail: there is no candidate line, \<open>Math.max\<close> of no heights is
  \<open>-Infinity\<close>, no line at all is within 1 of it, and the title is the empty string.
  \<open>extractOutlineFromPdf\<close> returns the empty title with the classified headings, and
  \<open>handleExtract\<close> fails with \<open>NoStructureFound\<close> exactly when no heading was
  classified.
\<close>

theorem no_early_lines_empty_title:
  "collect_lines 1 [] pages = Inr allLines \<and> allLines \<noteq> [] \<and> (\<forall>l \<in> set allLines. 2 < page l) \<longrightarrow>
     filter (\<lambda>l. page l \<le> 2) allLines = [] \<and>
     Math_max (map line_height (filter (\<lambda>l. page l \<le> 2) allLines)) = NegInfinity \<and>
     filter (\<lambda>line. within_one (line_height line) NegInfinity) allLines = [] \<and>
     extractTitle allLines = [] \<and>
     extractOutlineFromPdf pages =
       Inr \<lparr>title = [],
            outline = classifyHeadings allLines [] (headingSizes (getFontStatistics allLines))\<rparr> \<and>
     handleExtract (Some pages) =
       (if classifyHeadings allLines [] (headingSizes (getFontStatistics allLines)) = []
        then Inl NoStructureFound
        else Inr \<lparr>title = [],
                 outline = classifyHeadings allLines []
                             (headingSizes (getFontStatistics allLines))\<rparr>)"
proof (intro impI)
  assume a: "collect_lines 1 [] pages = Inr allLines \<and> allLines \<noteq> [] \<and>
    (\<forall>l \<in> set allLines. 2 < page l)"
  then have f: "filter (\<lambda>l. page l \<le> 2) allLines = []"
    by (auto simp: filter_empty_conv)
  have t: "extractTitle allLines = []"
    by (simp add: extractTitle_def f)
  have w: "filter (\<lambda>line. within_one (line_height line) NegInfinity) allLines = []"
    by (simp add: within_one_def)
  have e: "extractOutlineFromPdf pages =
       Inr \<lparr>title = [],
            outline = classifyHeadings allLines [] (headingSizes (getFontStatistics allLines))\<rparr>"
    using a by (simp add: extractOutlineFromPdf_def Let_def t)
  show "filter (\<lambda>l. page l \<le> 2) allLines = [] \<and>
     Math_max (map line_height (filter (\<lambda>l. page l \<le> 2) allLines)) = NegInfinity \<and>
     filter (\<lambda>line. within_one (line_height line) NegInfinity) allLines = [] \<and>
     extractTitle allLines = [] \<and>
     extractOutlineFromPdf pages =
       Inr \<lparr>title = [],
            outline = classifyHeadings allLines [] (headingSizes (getFontStatistics allLines))\<rparr> \<and>
     handleExtract (Some pages) =
       (if classifyHeadings allLines [] (headingSizes (getFontStatistics allLines)) = []
        then Inl NoStructureFound
        else Inr \<lparr>title = [],
                 outline = classifyHeadings allLines []
                             (headingSizes (getFontStatistics allLines))\<rparr>)"
    using f w t e by (simp add: handleExtract_def)
qed

lemma late_lines_example:
  "collect_lines 1 []
     [[], [],
      [\<lparr>str = ''Chapter One'', transform = Matrix 1 0 0 1 72 700, height = 18, fontName = ''g_d0_f2''\<rparr>,
       \<lparr>str = ''Body text of the third page'', transform = Matrix 1 0 0 1 72 680, height = 12, fontName = ''g_d0_f1''\<rparr>]]
   = Inr [\<lparr>line_text = ''Chapter One'', line_x = 72, line_y = 700, line_height = 18,
           line_fontName = ''g_d0_f2'', page = 3\<rparr>,
          \<lparr>line_text = ''Body text of the third page'', line_x = 72, line_y = 680,
           line_height = 12, line_fontName = ''g_d0_f1'', page = 3\<rparr>]"
  by code_simp

lemma late_headings_example:
  "classifyHeadings
         [\<lparr>line_text = ''Chapter One'', line_x = 72, line_y = 700, line_height = 18,
           line_fontName = ''g_d0_f2'', page = 3\<rparr>,
          \<lparr>line_text = ''Body text of the third page'', line_x = 72, line_y = 680,
           line_height = 12, line_fontName = ''g_d0_f1'', page = 3\<rparr>] []
      (headingSizes (getFontStatistics
         [\<lparr>line_text = ''Chapter One'', line_x = 72, line_y = 700, line_height = 18,
           line_fontName = ''g_d0_f2'', page = 3\<rparr>,
          \<lparr>line_text = ''Body text of the third page'', line_x = 72, line_y = 680,
           line_height = 12, line_fontName = ''g_d0_f1'', page = 3\<rparr>]))
   = [\<lparr>heading_text = ''Chapter One'', level = H1, heading_page = 3\<rparr>]"
  by code_simp

theorem no_early_lines_empty_title_witness:
  "handleExtract (Some
     [[], [],
      [\<lparr>str = ''Chapter One'', transform = Matrix 1 0 0 1 72 700, height = 18, fontName = ''g_d0_f2''\<rparr>,
       \<lparr>str = ''Body text of the third page'', transform = Matrix 1 0 0 1 72 680, height = 12, fontName = ''g_d0_f1''\<rparr>]])
   = Inr \<lparr>title = [],
          outline = [\<lparr>heading_text = ''Chapter One'', level = H1, heading_page = 3\<rparr>]\<rparr>"
  using no_early_lines_empty_title [of
     "[[], [],
      [\<lparr>str = ''Chapter One'', transform = Matrix 1 0 0 1 72 700, height = 18, fontName = ''g_d0_f2''\<rparr>,
       \<lparr>str = ''Body text of the third page'', transform = Matrix 1 0 0 1 72 680, height = 12, fontName = ''g_d0_f1''\<rparr>]]"
     "[\<lparr>line_text = ''Chapter One'', line_x = 72, line_y = 700, line_height = 18,
           line_fontName = ''g_d0_f2'', page = 3\<rparr>,
          \<lparr>line_text = ''Body text of the third page'', line_x = 72, line_y = 680,
           line_height = 12, line_fontName = ''g_d0_f1'', page = 3\<rparr>]"]
  unfolding late_lines_example late_headings_example by simp

subsection \<open>Font statistics\<close>

lemma accumulated_snoc:
  "accumulated (ls @ [l]) k =
     accumulated ls k + (if counted l \<and> Math_round (line_height l) = k then length (line_text l) else 0)"
  by (simp add: accumulated_def)

lemma bucket_heights_snoc:
  "bucket_heights (ls @ [l]) =
     (if counted l then insert (Math_round (line_height l)) (bucket_heights ls)
      else bucket_heights ls)"
  by (simp add: bucket_heights_def)

lemma accumulated_no_bucket: "k \<notin> bucket_heights ls \<Longrightarrow> accumulated ls k = 0"
proof -
  assume "k \<notin> bucket_heights ls"
  then have "filter (\<lambda>l. counted l \<and> Math_round (line_height l) = k) ls = []"
    by (auto simp: bucket_heights_def filter_empty_conv image_iff)
  then show ?thesis
    by (simp add: accumulated_def)
qed

lemma profiled_step:
  assumes "profiled fs ls"
  shows "profiled (add_font_stat fs l) (ls @ [l])"
proof (cases "counted l")
  case False
  then have "add_font_stat fs l = fs"
    by (auto simp: add_font_stat_def counted_def)
  with assms False show ?thesis
    by (simp add: profiled_def accumulated_snoc bucket_heights_snoc)
next
  case True
  let ?h = "Math_round (line_height l)"
  from assms have d: "distinct (map fst fs)"
    and m: "\<And>k. map_of fs k = (if k \<in> bucket_heights ls then Some (accumulated ls k) else None)"
    by (simp_all add: profiled_def)
  have "(case map_of fs ?h of None \<Rightarrow> 0 | Some c \<Rightarrow> c) = accumulated ls ?h"
    by (simp add: m accumulated_no_bucket)
  with True have a: "add_font_stat fs l = AList.update ?h (accumulated ls ?h + length (line_text l)) fs"
    by (simp add: add_font_stat_def counted_def Let_def)
  show ?thesis
    unfolding profiled_def a using d m True
    by (simp add: distinct_update update_conv' accumulated_snoc bucket_heights_snoc)
qed

lemma profiled_fontStats: "profiled (fontStats_of ls) ls"
proof (induction ls rule: rev_induct)
  case Nil
  then show ?case
    by (simp add: fontStats_of_def profiled_def bucket_heights_def)
next
  case (snoc l ls)
  then show ?case
    using profiled_step [of "fontStats_of ls" ls l] by (simp add: fontStats_of_def)
qed

lemma ranked_keys:
  "distinct (map fst (ranked ls))" "fst ` set (ranked ls) = bucket_heights ls"
  "(k, c) \<in> set (ranked ls) \<Longrightarrow> c = accumulated ls k"
proof -
  have p: "profiled (fontStats_of ls) ls"
    by (rule profiled_fontStats)
  then have d: "distinct (map fst (fontStats_of ls))"
    and m: "\<And>k. map_of (fontStats_of ls) k =
        (if k \<in> bucket_heights ls then Some (accumulated ls k) else None)"
    by (simp_all add: profiled_def)
  have s: "set (ranked ls) = set (fontStats_of ls)"
    by (simp add: ranked_def set_obj_entries)
  have "distinct (map fst (obj_entries (fontStats_of ls)))"
    using d by (rule distinct_obj_entries)
  then show "distinct (map fst (ranked ls))"
    by (simp add: ranked_def distinct_map)
  have "fst ` set (fontStats_of ls) = dom (map_of (fontStats_of ls))"
    by (simp add: dom_map_of_conv_image_fst)
  also have "\<dots> = bucket_heights ls"
    by (auto simp: dom_def m)
  finally show "fst ` set (ranked ls) = bucket_heights ls"
    by (simp add: s)
  show "c = accumulated ls k" if "(k, c) \<in> set (ranked ls)"
  proof -
    from that s have "(k, c) \<in> set (fontStats_of ls)"
      by simp
    with d have "map_of (fontStats_of ls) k = Some c"
      by (rule map_of_is_SomeI)
    then show ?thesis
      by (auto simp: m split: if_splits)
  qed
qed

lemma ranked_head:
  assumes "ranked ls = (k, c) # rest" and "k' \<in> bucket_heights ls"
  shows "accumulated ls k' \<le> accumulated ls k"
proof -
  from assms(2) ranked_keys(2) [of ls] obtain c' where in': "(k', c') \<in> set (ranked ls)"
    by force
  have "sorted (map (\<lambda>(size, count). - int count) (ranked ls))"
    unfolding ranked_def by (rule sorted_sort_key)
  from sorted_hd_least [OF this in'] have "c' \<le> c"
    by (simp add: assms(1))
  moreover have "c' = accumulated ls k'"
    using in' by (rule ranked_keys(3))
  moreover have "c = accumulated ls k"
    using assms(1) by (intro ranked_keys(3)) simp
  ultimately show ?thesis
    by simp
qed

lemma sort_key_uminus:
  fixes xs :: "real list"
  assumes "distinct xs"
  shows "sort_key (\<lambda>s. - s) xs = rev (sorted_list_of_set (set xs))"
proof -
  let ?zs = "sort_key (\<lambda>s. - s) xs"
  have "sorted (map (\<lambda>s. - s) ?zs)"
    by (rule sorted_sort_key)
  then have "sorted_wrt (\<lambda>a b. b \<le> a) ?zs"
    by (simp add: sorted_map)
  then have "sorted (rev ?zs)"
    by (simp add: sorted_wrt_rev)
  moreover have "distinct (rev ?zs)" "set (rev ?zs) = set xs"
    using assms by simp_all
  ultimately have "rev ?zs = sorted_list_of_set (set xs)"
    by (intro sorted_distinct_set_unique) simp_all
  then show ?thesis
    by (simp add: rev_swap)
qed

lemma sortedFonts_ranked:
  "sortedFonts_of (fontStats_of ls) = map (\<lambda>e. real_of_int (fst e)) (ranked ls)"
  by (simp add: sortedFonts_of_def ranked_def case_prod_unfold)

lemma getFontStatistics_eq:
  "bodySize (getFontStatistics ls) =
     (case ranked ls of [] \<Rightarrow> 12 | e # _ \<Rightarrow> if fst e = 0 then 12 else real_of_int (fst e))"
  "headingSizes (getFontStatistics ls) =
     rev (sorted_list_of_set
       {s \<in> real_of_int ` bucket_heights ls. bodySize (getFontStatistics ls) < s})"
proof -
  let ?sf = "sortedFonts_of (fontStats_of ls)"
  let ?b = "case ?sf of [] \<Rightarrow> 12 | s # _ \<Rightarrow> if s = 0 then 12 else s"
  show b: "bodySize (getFontStatistics ls) =
     (case ranked ls of [] \<Rightarrow> 12 | e # _ \<Rightarrow> if fst e = 0 then 12 else real_of_int (fst e))"
    by (simp add: getFontStatistics_def Let_def sortedFonts_ranked split: list.splits)
  have bs: "bodySize (getFontStatistics ls) = ?b"
    by (simp add: getFontStatistics_def Let_def)
  have d: "distinct ?sf"
    using ranked_keys(1) [of ls]
    by (simp add: sortedFonts_ranked distinct_map inj_on_def comp_def)
  have "(\<lambda>e. real_of_int (fst e)) ` set (ranked ls) = real_of_int ` fst ` set (ranked ls)"
    by (simp add: image_image)
  then have s: "set ?sf = real_of_int ` bucket_heights ls"
    by (simp add: sortedFonts_ranked ranked_keys(2))
  have "headingSizes (getFontStatistics ls) = sort_key (\<lambda>s. - s) (filter (\<lambda>size. ?b < size) ?sf)"
    by (simp add: getFontStatistics_def Let_def)
  also have "\<dots> = rev (sorted_list_of_set (set (filter (\<lambda>size. ?b < size) ?sf)))"
    using d by (intro sort_key_uminus) simp
  also have "set (filter (\<lambda>size. ?b < size) ?sf)
      = {s \<in> real_of_int ` bucket_heights ls. bodySize (getFontStatistics ls) < s}"
    unfolding bs using s by auto
  finally show "headingSizes (getFontStatistics ls) =
     rev (sorted_list_of_set
       {s \<in> real_of_int ` bucket_heights ls. bodySize (getFontStatistics ls) < s})" .
qed

text \<open>
  Claim C1, as the code has it. A line counts when its height is not 0 and its text has
  more than 2 characters; \<open>fontStats\<close> has one bucket for each rounded height of a
  line that counts, holding the sum of the text lengths of these lines. \<open>bodySize\<close> is
  12 when no line counts; otherwise there is a bucket of largest accumulated length
  (the first one in the ranking), and \<open>bodySize\<close> is its height, unless that height
  is 0: then \<open>sortedFonts[0] || 12\<close> is 12. \<open>headingSizes\<close> is the list of the bucket
  heights greater than \<open>bodySize\<close>, in descending order without repetition. When
  the buckets are 500 characters at height 12 and 40 characters at height 18,
  \<open>bodySize\<close> is 12 and \<open>headingSizes\<close> is \<open>[18]\<close>.
\<close>

theorem font_statistics:
  "(\<forall>k. map_of (fontStats_of ls) k =
        (if k \<in> bucket_heights ls then Some (accumulated ls k) else None)) \<and>
   (bucket_heights ls = {} \<longrightarrow> bodySize (getFontStatistics ls) = 12) \<and>
   (bucket_heights ls \<noteq> {} \<longrightarrow>
      (\<exists>k \<in> bucket_heights ls.
         (\<forall>k' \<in> bucket_heights ls. accumulated ls k' \<le> accumulated ls k) \<and>
         bodySize (getFontStatistics ls) = (if k = 0 then 12 else real_of_int k))) \<and>
   headingSizes (getFontStatistics ls) =
     rev (sorted_list_of_set
       {s \<in> real_of_int ` bucket_heights ls. bodySize (getFontStatistics ls) < s}) \<and>
   (bucket_heights ls = {12, 18} \<and> accumulated ls 12 = 500 \<and> accumulated ls 18 = 40 \<longrightarrow>
      bodySize (getFontStatistics ls) = 12 \<and> headingSizes (getFontStatistics ls) = [18])"
proof -
  have 1: "\<forall>k. map_of (fontStats_of ls) k =
        (if k \<in> bucket_heights ls then Some (accumulated ls k) else None)"
    using profiled_fontStats [of ls] by (simp add: profiled_def)
  have e: "ranked ls = [] \<longleftrightarrow> bucket_heights ls = {}"
    using ranked_keys(2) [of ls] by auto
  have 2: "bodySize (getFontStatistics ls) = 12" if "bucket_heights ls = {}"
    using that e by (simp add: getFontStatistics_eq(1))
  have 3: "\<exists>k \<in> bucket_heights ls.
         (\<forall>k' \<in> bucket_heights ls. accumulated ls k' \<le> accumulated ls k) \<and>
         bodySize (getFontStatistics ls) = (if k = 0 then 12 else real_of_int k)"
    if "bucket_heights ls \<noteq> {}"
  proof -
    from that e obtain k c rest where r: "ranked ls = (k, c) # rest"
      by (cases "ranked ls") auto
    then have "k \<in> fst ` set (ranked ls)"
      by force
    then have k: "k \<in> bucket_heights ls"
      by (simp only: ranked_keys(2))
    have "\<forall>k' \<in> bucket_heights ls. accumulated ls k' \<le> accumulated ls k"
      using ranked_head [OF r] by blast
    moreover have "bodySize (getFontStatistics ls) = (if k = 0 then 12 else real_of_int k)"
      by (simp add: getFontStatistics_eq(1) r)
    ultimately show ?thesis
      using k by blast
  qed
  have 4: "headingSizes (getFontStatistics ls) =
     rev (sorted_list_of_set
       {s \<in> real_of_int ` bucket_heights ls. bodySize (getFontStatistics ls) < s})"
    by (rule getFontStatistics_eq(2))
  have 5: "bodySize (getFontStatistics ls) = 12 \<and> headingSizes (getFontStatistics ls) = [18]"
    if a: "bucket_heights ls = {12, 18} \<and> accumulated ls 12 = 500 \<and> accumulated ls 18 = 40"
  proof -
    from a have "bucket_heights ls \<noteq> {}"
      by auto
    from 3 [OF this] obtain k where k: "k \<in> bucket_heights ls"
      "\<forall>k' \<in> bucket_heights ls. accumulated ls k' \<le> accumulated ls k"
      "bodySize (getFontStatistics ls) = (if k = 0 then 12 else real_of_int k)"
      by blast
    from k(1) a have "k = 12 \<or> k = 18"
      by auto
    moreover from k(2) a have "accumulated ls 12 \<le> accumulated ls k"
      by auto
    ultimately have "k = 12"
      using a by auto
    with k(3) have b: "bodySize (getFontStatistics ls) = 12"
      by simp
    have "{s \<in> real_of_int ` bucket_heights ls. bodySize (getFontStatistics ls) < s} = {18}"
      using a b by auto
    with 4 b show ?thesis
      by simp
  qed
  from 1 2 3 4 5 show ?thesis
    by blast
qed

lemma profile_example:
  "bucket_heights
     [\<lparr>line_text = replicate 100 CHR ''a'', line_x = 72, line_y = 700, line_height = 12,
        line_fontName = ''g_d0_f1'', page = 1\<rparr>,
      \<lparr>line_text = replicate 400 CHR ''b'', line_x = 72, line_y = 680, line_height = 12.2,
        line_fontName = ''g_d0_f1'', page = 1\<rparr>,
      \<lparr>line_text = replicate 40 CHR ''c'', line_x = 72, line_y = 750, line_height = 18,
        line_fontName = ''g_d0_f2'', page = 1\<rparr>,
      \<lparr>line_text = ''ab'', line_x = 72, line_y = 780, line_height = 30,
        line_fontName = ''g_d0_f2'', page = 1\<rparr>,
      \<lparr>line_text = ''hidden'', line_x = 72, line_y = 20, line_height = 0,
        line_fontName = ''g_d0_f1'', page = 1\<rparr>] = {12, 18}"
  "accumulated
     [\<lparr>line_text = replicate 100 CHR ''a'', line_x = 72, line_y = 700, line_height = 12,
        line_fontName = ''g_d0_f1'', page = 1\<rparr>,
      \<lparr>line_text = replicate 400 CHR ''b'', line_x = 72, line_y = 680, line_height = 12.2,
        line_fontName = ''g_d0_f1'', page = 1\<rparr>,
      \<lparr>line_text = replicate 40 CHR ''c'', line_x = 72, line_y = 750, line_height = 18,
        line_fontName = ''g_d0_f2'', page = 1\<rparr>,
      \<lparr>line_text = ''ab'', line_x = 72, line_y = 780, line_height = 30,
        line_fontName = ''g_d0_f2'', page = 1\<rparr>,
      \<lparr>line_text = ''hidden'', line_x = 72, line_y = 20, line_height = 0,
        line_fontName = ''g_d0_f1'', page = 1\<rparr>] 12 = 500"
  "accumulated
     [\<lparr>line_text = replicate 100 CHR ''a'', line_x = 72, line_y = 700, line_height = 12,
        line_fontName = ''g_d0_f1'', page = 1\<rparr>,
      \<lparr>line_text = replicate 400 CHR ''b'', line_x = 72, line_y = 680, line_height = 12.2,
        line_fontName = ''g_d0_f1'', page = 1\<rparr>,
      \<lparr>line_text = replicate 40 CHR ''c'', line_x = 72, line_y = 750, line_height = 18,
        line_fontName = ''g_d0_f2'', page = 1\<rparr>,
      \<lparr>line_text = ''ab'', line_x = 72, line_y = 780, line_height = 30,
        line_fontName = ''g_d0_f2'', page = 1\<rparr>,
      \<lparr>line_text = ''hidden'', line_x = 72, line_y = 20, line_height = 0,
        line_fontName = ''g_d0_f1'', page = 1\<rparr>] 18 = 40"
  by (simp_all add: bucket_heights_def accumulated_def counted_def Math_round_def)

theorem font_statistics_witness:
  "bodySize (getFontStatistics
     [\<lparr>line_text = replicate 100 CHR ''a'', line_x = 72, line_y = 700, line_height = 12,
        line_fontName = ''g_d0_f1'', page = 1\<rparr>,
      \<lparr>line_text = replicate 400 CHR ''b'', line_x = 72, line_y = 680, line_height = 12.2,
        line_fontName = ''g_d0_f1'', page = 1\<rparr>,
      \<lparr>line_text = replicate 40 CHR ''c'', line_x = 72, line_y = 750, line_height = 18,
        line_fontName = ''g_d0_f2'', page = 1\<rparr>,
      \<lparr>line_text = ''ab'', line_x = 72, line_y = 780, line_height = 30,
        line_fontName = ''g_d0_f2'', page = 1\<rparr>,
      \<lparr>line_text = ''hidden'', line_x = 72, line_y = 20, line_height = 0,
        line_fontName = ''g_d0_f1'', page = 1\<rparr>]) = 12 \<and>
   headingSizes (getFontStatistics
     [\<lparr>line_text = replicate 100 CHR ''a'', line_x = 72, line_y = 700, line_height = 12,
        line_fontName = ''g_d0_f1'', page = 1\<rparr>,
      \<lparr>line_text = replicate 400 CHR ''b'', line_x = 72, line_y = 680, line_height = 12.2,
        line_fontName = ''g_d0_f1'', page = 1\<rparr>,
      \<lparr>line_text = replicate 40 CHR ''c'', line_x = 72, line_y = 750, line_height = 18,
        line_fontName = ''g_d0_f2'', page = 1\<rparr>,
      \<lparr>line_text = ''ab'', line_x = 72, line_y = 780, line_height = 30,
        line_fontName = ''g_d0_f2'', page = 1\<rparr>,
      \<lparr>line_text = ''hidden'', line_x = 72, line_y = 20, line_height = 0,
        line_fontName = ''g_d0_f1'', page = 1\<rparr>]) = [18]"
  using font_statistics [of
     "[\<lparr>line_text = replicate 100 CHR ''a'', line_x = 72, line_y = 700, line_height = 12,
        line_fontName = ''g_d0_f1'', page = 1\<rparr>,
      \<lparr>line_text = replicate 400 CHR ''b'', line_x = 72, line_y = 680, line_height = 12.2,
        line_fontName = ''g_d0_f1'', page = 1\<rparr>,
      \<lparr>line_text = replicate 40 CHR ''c'', line_x = 72, line_y = 750, line_height = 18,
        line_fontName = ''g_d0_f2'', page = 1\<rparr>,
      \<lparr>line_text = ''ab'', line_x = 72, line_y = 780, line_height = 30,
        line_fontName = ''g_d0_f2'', page = 1\<rparr>,
      \<lparr>line_text = ''hidden'', line_x = 72, line_y = 20, line_height = 0,
        line_fontName = ''g_d0_f1'', page = 1\<rparr>]",
     THEN conjunct2, THEN conjunct2, THEN conjunct2, THEN conjunct2]
  unfolding profile_example by simp

text \<open>
  The claim as the specification states it fails when the bucket of largest accumulated
  length has the height 0: a single line of height 0.25 with four characters gives the
  one bucket 0, and \<open>bodySize\<close> is 12, not 0.
\<close>

theorem font_statistics_counterexample:
  "fontStats_of
     [\<lparr>line_text = ''tiny'', line_x = 72, line_y = 700, line_height = 1 / 4,
        line_fontName = ''g_d0_f1'', page = 1\<rparr>] = [(0, 4)] \<and>
   accumulated
     [\<lparr>line_text = ''tiny'', line_x = 72, line_y = 700, line_height = 1 / 4,
        line_fontName = ''g_d0_f1'', page = 1\<rparr>] 0 = 4 \<and>
   bodySize (getFontStatistics
     [\<lparr>line_text = ''tiny'', line_x = 72, line_y = 700, line_height = 1 / 4,
        line_fontName = ''g_d0_f1'', page = 1\<rparr>]) = 12"
  by (simp add: fontStats_of_def add_font_stat_def accumulated_def counted_def Math_round_def
      getFontStatistics_def sortedFonts_of_def obj_entries_def is_array_index_def)

end
